theory Spec2Isabelle
  imports Main
begin

section \<open>The conference script: host platform\<close>

text \<open>
  The conference script (\<^verbatim>\<open>Code.js\<close>, first part) runs inside a spreadsheet host. Everything it
  touches is a service of that host: the script properties, the calendars, the forms, the
  user interface and the sheet. The services are gathered in one record, the \<open>world\<close>, that
  every function of the script takes and returns.

  JavaScript Date cells are records of their local-time fields, the only ones the script
  reads (\<^verbatim>\<open>getHours\<close>, \<^verbatim>\<open>getMinutes\<close>, \<^verbatim>\<open>toLocaleDateString\<close>, \<^verbatim>\<open>toLocaleTimeString\<close>).
\<close>

record js_date =
  dYear :: nat
  dMonth :: nat
  dDay :: nat
  dHours :: nat
  dMinutes :: nat
  dSeconds :: nat

text \<open>
  One data row of the sheet \<^verbatim>\<open>Conference Setup\<close>: \<^verbatim>\<open>session[0]\<close> to \<^verbatim>\<open>session[5]\<close>. An empty
  identifier cell reads as the empty string.
\<close>

record session =
  sTitle :: string
  sDate :: js_date
  sStart :: js_date
  sEnd :: js_date
  sLocation :: string
  sEventId :: string

text \<open>
  \<^verbatim>\<open>values\<close>, the result of \<^verbatim>\<open>getDataRange().getValues()\<close>: \<^verbatim>\<open>values[0]\<close> is the header row and
  \<^verbatim>\<open>values[i]\<close> for \<open>i \<ge> 1\<close> is \<open>body ! (i - 1)\<close>.
\<close>

record table_values =
  header :: "string list"
  body :: "session list"

record cal_event =
  evTitle :: string
  evStart :: js_date
  evEnd :: js_date
  evLocation :: string
  guestsCanSeeGuests :: bool

text \<open>The body of a \<^verbatim>\<open>Calendar.Events.insert\<close> request (\<^verbatim>\<open>eventPayload\<close>).\<close>

record event_payload =
  summary :: string
  pStart :: js_date
  pEnd :: js_date
  pLocation :: string
  requestId :: string

text \<open>
  The requests that change something in the calendar service, as the model logs them: the
  calendar, the event where there is one, and the arguments; for \<open>EventsInsert\<close> the calendar,
  the payload and the identifier that the service returned. \<open>DeleteEvent\<close> is the delete
  request of the service (\<^verbatim>\<open>event.deleteEvent()\<close>).
\<close>

datatype cal_call =
    CreateCalendar string
  | EventsInsert string event_payload string
  | SetTitle string string string
  | SetTime string string js_date js_date
  | SetLocation string string string
  | SetGuestsCanSeeGuests string string bool
  | DeleteEvent string string

datatype form_item =
    TextItem string bool
  | SectionHeader string
  | MultipleChoice string "string list"

record form =
  formTitle :: string
  editUrl :: string
  items :: "form_item list"

datatype ui_call =
    Alert string
  | ShowModalDialog string string

text \<open>
  What a call can throw: the service is not available; there is no such calendar, event or
  form; the service will not make a second object under an identifier that is in use; a method
  is called on \<^verbatim>\<open>null\<close>.
\<close>

datatype error = TransientUnavailable | NotFound | Conflict | TypeError

text \<open>
  The host. \<open>calendars\<close> maps the identifier of a calendar to its events, by event
  identifier. \<open>sheetValues\<close> is the data range of the sheet \<^verbatim>\<open>Conference Setup\<close>. \<open>calls\<close> logs
  the requests the calendar service has carried out, each with the index \<^verbatim>\<open>i\<close> of the loop of
  \<^verbatim>\<open>setUpCalendar_\<close> that sent it (0 outside the loop). The identifiers that the service gives
  to new calendars and events are \<open>idgen 0\<close>, \<open>idgen 1\<close>, ... and \<open>issued\<close> counts how many
  it has given; \<^verbatim>\<open>Utilities.getUuid\<close> answers \<open>uuidgen 0\<close>, \<open>uuidgen 1\<close>, ... in the same way.
  \<open>outage\<close> decides when the calendar service fails: with \<open>Some n\<close> it answers \<open>n\<close> more
  requests and then throws \<open>TransientUnavailable\<close> at each one; with \<open>None\<close> it never does.
\<close>

record world =
  properties :: "string \<rightharpoonup> string"
  calendars :: "string \<rightharpoonup> (string \<rightharpoonup> cal_event)"
  forms :: "string \<rightharpoonup> form"
  sheetValues :: table_values
  ui :: "ui_call list"
  calls :: "(nat \<times> cal_call) list"
  idgen :: "nat \<Rightarrow> string"
  issued :: nat
  uuidgen :: "nat \<Rightarrow> string"
  uuids :: nat
  outage :: "nat option"

text \<open>
  A call of the script either returns (\<open>Ok\<close>) or throws (\<open>Thrown\<close>); in both cases the effects
  it had on the host so far stay, so both carry the world.
\<close>

datatype 'a result = Ok 'a world | Thrown error world

fun bind :: "'a result \<Rightarrow> ('a \<Rightarrow> world \<Rightarrow> 'b result) \<Rightarrow> 'b result" where
  "bind (Ok x w) f = f x w"
| "bind (Thrown e w) f = Thrown e w"

fun worldOf :: "'a result \<Rightarrow> world" where
  "worldOf (Ok x w) = w"
| "worldOf (Thrown e w) = w"

fun returned :: "'a result \<Rightarrow> bool" where
  "returned (Ok x w) = True"
| "returned (Thrown e w) = False"

subsection \<open>Opening the form and the calendar\<close>

text \<open>
  \<^verbatim>\<open>openUrl_\<close> shows a modal dialog whose script opens the URL.
\<close>

definition openUrl :: "string \<Rightarrow> world \<Rightarrow> unit result" where
  "openUrl url w =
     (let js = ''<script>window.open('' @ [CHR 0x27] @ url @ [CHR 0x27] @ '', '' @ [CHR 0x27]
               @ ''_blank'' @ [CHR 0x27] @ ''); google.script.host.close();</script>''
      in Ok () (w\<lparr>ui := ui w @ [ShowModalDialog js ''Now loading.'']\<rparr>))"

definition alert :: "string \<Rightarrow> world \<Rightarrow> unit result" where
  "alert msg w = Ok () (w\<lparr>ui := ui w @ [Alert msg]\<rparr>)"

text \<open>\<^verbatim>\<open>FormApp.openById\<close> throws when there is no such form.\<close>

definition openById :: "string \<Rightarrow> world \<Rightarrow> form result" where
  "openById fid w = (case forms w fid of None \<Rightarrow> Thrown NotFound w | Some f \<Rightarrow> Ok f w)"

definition openForm :: "world \<Rightarrow> unit result" where
  "openForm w =
     (case properties w ''formId'' of
        None \<Rightarrow> alert ''No registration form has been set up yet.'' w
      | Some formId \<Rightarrow> bind (openById formId w) (\<lambda>form. openUrl (editUrl form)))"

definition openCalendar :: "world \<Rightarrow> unit result" where
  "openCalendar w =
     (case properties w ''calendarId'' of
        None \<Rightarrow> alert ''No calendar has been set up yet.'' w
      | Some calId \<Rightarrow> openUrl (''https://calendar.google.com/calendar/?cid='' @ calId) w)"

fun isDialog :: "ui_call \<Rightarrow> bool" where
  "isDialog (ShowModalDialog js t) = True"
| "isDialog (Alert m) = False"

text \<open>A host on which nothing has been set up yet.\<close>

definition freshWorld :: world where
  "freshWorld =
     \<lparr>properties = Map.empty, calendars = Map.empty, forms = Map.empty,
      sheetValues = \<lparr>header = [], body = []\<rparr>, ui = [], calls = [],
      idgen = (\<lambda>n. replicate (Suc n) CHR ''e''), issued = 0,
      uuidgen = (\<lambda>n. replicate (Suc n) CHR ''u''), uuids = 0, outage = None\<rparr>"

subsection \<open>The calendar service\<close>

text \<open>Every request to the calendar service first finds out whether the service answers.\<close>

definition tick :: "world \<Rightarrow> unit result" where
  "tick w =
     (case outage w of
        None \<Rightarrow> Ok () w
      | Some 0 \<Rightarrow> Thrown TransientUnavailable w
      | Some (Suc n) \<Rightarrow> Ok () (w\<lparr>outage := Some n\<rparr>))"

text \<open>
  \<^verbatim>\<open>CalendarApp.getCalendarById\<close>: the calendar, which the model names by its identifier, or
  \<^verbatim>\<open>null\<close>.
\<close>

definition getCalendarById :: "string \<Rightarrow> world \<Rightarrow> (string option) result" where
  "getCalendarById calId w =
     bind (tick w) (\<lambda>_ w. Ok (if calendars w calId = None then None else Some calId) w)"

definition createCalendar :: "string \<Rightarrow> world \<Rightarrow> string result" where
  "createCalendar name w =
     bind (tick w) (\<lambda>_ w.
       let calId = idgen w (issued w) in
       if calendars w calId \<noteq> None then Thrown Conflict w
       else Ok calId (w\<lparr>calendars := (calendars w)(calId \<mapsto> Map.empty),
                         issued := Suc (issued w),
                         calls := calls w @ [(0, CreateCalendar name)]\<rparr>))"

text \<open>
  \<^verbatim>\<open>cal.getEventById(id)\<close>: the event, named by its identifier, or \<^verbatim>\<open>null\<close>. On \<^verbatim>\<open>cal = null\<close>
  the call is a \<open>TypeError\<close>.
\<close>

definition getEventById :: "string option \<Rightarrow> string \<Rightarrow> world \<Rightarrow> (string option) result" where
  "getEventById cal eid w =
     (case cal of
        None \<Rightarrow> Thrown TypeError w
      | Some calId \<Rightarrow>
          bind (tick w) (\<lambda>_ w.
            case calendars w calId of
              None \<Rightarrow> Thrown NotFound w
            | Some evs \<Rightarrow> Ok (if evs eid = None then None else Some eid) w))"

definition getUuid :: "world \<Rightarrow> string result" where
  "getUuid w = Ok (uuidgen w (uuids w)) (w\<lparr>uuids := Suc (uuids w)\<rparr>)"

text \<open>
  \<^verbatim>\<open>Calendar.Events.insert(eventPayload, calId, ...)\<close>: a new event made from the payload,
  under the next identifier of the service, which is returned (\<^verbatim>\<open>eventReturn.id\<close>).
\<close>

definition eventOf :: "event_payload \<Rightarrow> cal_event" where
  "eventOf p = \<lparr>evTitle = summary p, evStart = pStart p, evEnd = pEnd p,
                 evLocation = pLocation p, guestsCanSeeGuests = True\<rparr>"

definition eventsInsert :: "nat \<Rightarrow> event_payload \<Rightarrow> string \<Rightarrow> world \<Rightarrow> string result" where
  "eventsInsert i p calId w =
     bind (tick w) (\<lambda>_ w.
       case calendars w calId of
         None \<Rightarrow> Thrown NotFound w
       | Some evs \<Rightarrow>
           let eid = idgen w (issued w) in
           if evs eid \<noteq> None then Thrown Conflict w
           else Ok eid (w\<lparr>calendars := (calendars w)(calId \<mapsto> evs(eid \<mapsto> eventOf p)),
                            issued := Suc (issued w),
                            calls := calls w @ [(i, EventsInsert calId p eid)]\<rparr>))"

text \<open>
  The setters of an event: the request \<open>c\<close> changes the event \<open>eid\<close> of the calendar
  \<open>calId\<close> by \<open>f\<close>.
\<close>

definition updateEvent ::
  "nat \<Rightarrow> string \<Rightarrow> string \<Rightarrow> (cal_event \<Rightarrow> cal_event) \<Rightarrow> cal_call \<Rightarrow> world \<Rightarrow> unit result" where
  "updateEvent i calId eid f c w =
     bind (tick w) (\<lambda>_ w.
       case calendars w calId of
         None \<Rightarrow> Thrown NotFound w
       | Some evs \<Rightarrow>
           (case evs eid of
              None \<Rightarrow> Thrown NotFound w
            | Some ev \<Rightarrow> Ok () (w\<lparr>calendars := (calendars w)(calId \<mapsto> evs(eid \<mapsto> f ev)),
                                   calls := calls w @ [(i, c)]\<rparr>)))"

definition setTitle :: "nat \<Rightarrow> string \<Rightarrow> string \<Rightarrow> string \<Rightarrow> world \<Rightarrow> unit result" where
  "setTitle i calId eid t = updateEvent i calId eid (\<lambda>ev. ev\<lparr>evTitle := t\<rparr>) (SetTitle calId eid t)"

definition setTime :: "nat \<Rightarrow> string \<Rightarrow> string \<Rightarrow> js_date \<Rightarrow> js_date \<Rightarrow> world \<Rightarrow> unit result" where
  "setTime i calId eid a b =
     updateEvent i calId eid (\<lambda>ev. ev\<lparr>evStart := a, evEnd := b\<rparr>) (SetTime calId eid a b)"

definition setLocation :: "nat \<Rightarrow> string \<Rightarrow> string \<Rightarrow> string \<Rightarrow> world \<Rightarrow> unit result" where
  "setLocation i calId eid l =
     updateEvent i calId eid (\<lambda>ev. ev\<lparr>evLocation := l\<rparr>) (SetLocation calId eid l)"

definition setGuestsCanSeeGuests :: "nat \<Rightarrow> string \<Rightarrow> string \<Rightarrow> bool \<Rightarrow> world \<Rightarrow> unit result" where
  "setGuestsCanSeeGuests i calId eid b =
     updateEvent i calId eid (\<lambda>ev. ev\<lparr>guestsCanSeeGuests := b\<rparr>) (SetGuestsCanSeeGuests calId eid b)"

subsection \<open>\<^verbatim>\<open>setUpCalendar_\<close>\<close>

definition joinDateAndTime :: "js_date \<Rightarrow> js_date \<Rightarrow> js_date" where
  "joinDateAndTime d t = d\<lparr>dHours := dHours t, dMinutes := dMinutes t\<rparr>"

text \<open>
  \<^verbatim>\<open>eventPayload\<close> for a session. The start and the end are sent as \<^verbatim>\<open>toISOString()\<close> of the
  dates, which the model keeps as dates. Of \<^verbatim>\<open>conferenceData\<close> only the \<^verbatim>\<open>requestId\<close> varies, the
  rest is the same constant in every payload and is left out.
\<close>

definition payloadOf :: "session \<Rightarrow> string \<Rightarrow> event_payload" where
  "payloadOf s uuid =
     \<lparr>summary = sTitle s,
      pStart = joinDateAndTime (sDate s) (sStart s),
      pEnd = joinDateAndTime (sDate s) (sEnd s),
      pLocation = sLocation s,
      requestId = uuid\<rparr>"

text \<open>
  The body of the loop of \<^verbatim>\<open>setUpCalendar_\<close> for \<^verbatim>\<open>session = values[i]\<close>. The result is the session
  with \<^verbatim>\<open>session[5] = event.getId()\<close>.
\<close>

definition syncRow :: "string option \<Rightarrow> string \<Rightarrow> nat \<Rightarrow> session \<Rightarrow> world \<Rightarrow> session result" where
  "syncRow cal calId i s w =
     (let title = sTitle s;
          start = joinDateAndTime (sDate s) (sStart s);
          end = joinDateAndTime (sDate s) (sEnd s);
          location = sLocation s
      in bind (getEventById cal (sEventId s) w) (\<lambda>event w.
         bind (case event of
                 None \<Rightarrow>
                   bind (getUuid w) (\<lambda>uuid w.
                   bind (eventsInsert i (payloadOf s uuid) calId w) (\<lambda>rid w.
                   getEventById cal rid w))
               | Some e \<Rightarrow>
                   bind (setTitle i calId e title w) (\<lambda>_ w.
                   bind (setTime i calId e start end w) (\<lambda>_ w.
                   bind (setLocation i calId e location w) (\<lambda>_ w.
                   Ok (Some e) w)))) (\<lambda>event w.
         case event of
           None \<Rightarrow> Thrown TypeError w
         | Some e \<Rightarrow>
             bind (setGuestsCanSeeGuests i calId e True w) (\<lambda>_ w.
             Ok (s\<lparr>sEventId := e\<rparr>) w))))"

text \<open>The loop \<^verbatim>\<open>for (var i = 1; i < values.length; i++)\<close>, from index \<open>i\<close> on.\<close>

fun syncRows :: "string option \<Rightarrow> string \<Rightarrow> nat \<Rightarrow> session list \<Rightarrow> world \<Rightarrow> (session list) result" where
  "syncRows cal calId i [] w = Ok [] w"
| "syncRows cal calId i (s # rest) w =
     bind (syncRow cal calId i s w) (\<lambda>s' w.
     bind (syncRows cal calId (Suc i) rest w) (\<lambda>rest' w.
     Ok (s' # rest') w))"

text \<open>
  The first lines of \<^verbatim>\<open>setUpCalendar_\<close>: the calendar of the property \<^verbatim>\<open>calendarId\<close>, or a new
  one when the property is not set or names no calendar. The result is \<^verbatim>\<open>cal\<close> and \<^verbatim>\<open>calId\<close>.
\<close>

definition openCalendarOfPass :: "world \<Rightarrow> (string option \<times> string) result" where
  "openCalendarOfPass w =
     bind (case properties w ''calendarId'' of
             None \<Rightarrow> Ok None w
           | Some calId \<Rightarrow> getCalendarById calId w) (\<lambda>found w.
     case found of
       None \<Rightarrow>
         bind (createCalendar ''LUMICKS Academy Calendar'' w) (\<lambda>calId w.
         Ok (Some calId, calId) (w\<lparr>properties := (properties w)(''calendarId'' \<mapsto> calId)\<rparr>))
     | Some calId \<Rightarrow>
         bind (getCalendarById calId w) (\<lambda>cal w. Ok (cal, calId) w))"

text \<open>
  \<^verbatim>\<open>setUpCalendar_(values, range)\<close>, where \<^verbatim>\<open>range\<close> is the data range of the sheet:
  \<^verbatim>\<open>range.setValues(values)\<close> after the loop writes the rows back.
\<close>

definition setUpCalendar :: "table_values \<Rightarrow> world \<Rightarrow> unit result" where
  "setUpCalendar values w =
     bind (openCalendarOfPass w) (\<lambda>(cal, calId) w.
     bind (syncRows cal calId 1 (body values) w) (\<lambda>rows w.
     Ok () (w\<lparr>sheetValues := values\<lparr>body := rows\<rparr>\<rparr>)))"

text \<open>
  The calendar part of \<^verbatim>\<open>setUpConference\<close>: the values of the sheet are read and handed to
  \<^verbatim>\<open>setUpCalendar_\<close>.
\<close>

definition calendarPass :: "world \<Rightarrow> unit result" where
  "calendarPass w = setUpCalendar (sheetValues w) w"

subsection \<open>What a pass does for a row\<close>

text \<open>
  What the calendar service and the loop of \<^verbatim>\<open>setUpCalendar_\<close> never touch.
\<close>

definition frame :: "world \<Rightarrow> world \<Rightarrow> bool" where
  "frame w w' \<longleftrightarrow> properties w' = properties w \<and> forms w' = forms w \<and> sheetValues w' = sheetValues w
     \<and> ui w' = ui w \<and> idgen w' = idgen w \<and> uuidgen w' = uuidgen w"

text \<open>
  An event after the four setters of the loop body have been applied for the session \<open>s\<close>.
\<close>

definition updatedEvent :: "session \<Rightarrow> cal_event \<Rightarrow> cal_event" where
  "updatedEvent s ev = ev\<lparr>evTitle := sTitle s, evStart := joinDateAndTime (sDate s) (sStart s),
       evEnd := joinDateAndTime (sDate s) (sEnd s), evLocation := sLocation s, guestsCanSeeGuests := True\<rparr>"

text \<open>
  The requests of the loop body for a session whose event exists; \<open>createCalls\<close>, for a session
  whose event does not: the insert, which returned \<open>eid\<close>, and the setter that follows.
\<close>

definition updateCalls :: "string \<Rightarrow> session \<Rightarrow> cal_call list" where
  "updateCalls c s =
     [SetTitle c (sEventId s) (sTitle s),
      SetTime c (sEventId s) (joinDateAndTime (sDate s) (sStart s)) (joinDateAndTime (sDate s) (sEnd s)),
      SetLocation c (sEventId s) (sLocation s),
      SetGuestsCanSeeGuests c (sEventId s) True]"

definition createCalls :: "string \<Rightarrow> session \<Rightarrow> string \<Rightarrow> string \<Rightarrow> cal_call list" where
  "createCalls c s uuid eid = [EventsInsert c (payloadOf s uuid) eid, SetGuestsCanSeeGuests c eid True]"

text \<open>
  The calendar \<open>c\<close> exists and has an event \<open>eid\<close>.
\<close>

definition has :: "world \<Rightarrow> string \<Rightarrow> string \<Rightarrow> bool" where
  "has w c eid = (case calendars w c of None \<Rightarrow> False | Some evs \<Rightarrow> evs eid \<noteq> None)"

text \<open>
  The requests logged between two worlds, and those among them that the loop sent at index \<open>i\<close>.
\<close>

definition newCalls :: "world \<Rightarrow> world \<Rightarrow> (nat \<times> cal_call) list" where
  "newCalls w w' = drop (length (calls w)) (calls w')"

definition rowCalls :: "nat \<Rightarrow> world \<Rightarrow> world \<Rightarrow> cal_call list" where
  "rowCalls i w w' = map snd (filter (\<lambda>x. fst x = i) (newCalls w w'))"

text \<open>
  What a pass did for one row: \<open>s\<close> is the row before, \<open>s'\<close> the row after, \<open>i\<close> its index.
  Either the row is unchanged and its requests are the four setters, or its identifier cell
  holds the identifier that the insert returned and its requests are the insert and one setter.
\<close>

definition updatedRow :: "string \<Rightarrow> nat \<Rightarrow> session \<Rightarrow> session \<Rightarrow> world \<Rightarrow> world \<Rightarrow> bool" where
  "updatedRow c i s s' w w' \<longleftrightarrow> s' = s \<and> rowCalls i w w' = updateCalls c s"

definition createdRow :: "string \<Rightarrow> nat \<Rightarrow> session \<Rightarrow> session \<Rightarrow> world \<Rightarrow> world \<Rightarrow> bool" where
  "createdRow c i s s' w w' \<longleftrightarrow>
     (\<exists>uuid. s' = s\<lparr>sEventId := sEventId s'\<rparr> \<and> rowCalls i w w' = createCalls c s uuid (sEventId s'))"

text \<open>
  The calendar that the property \<^verbatim>\<open>calendarId\<close> names, when there is one; a stored identifier
  resolves when that calendar has an event under it.
\<close>

definition passCalendar :: "world \<Rightarrow> string option" where
  "passCalendar w =
     (case properties w ''calendarId'' of
        None \<Rightarrow> None
      | Some calId \<Rightarrow> if calendars w calId = None then None else Some calId)"

definition resolves :: "world \<Rightarrow> string \<Rightarrow> bool" where
  "resolves w eid = (case passCalendar w of None \<Rightarrow> False | Some calId \<Rightarrow> has w calId eid)"

text \<open>
  The kinds of request.
\<close>

fun isInsert :: "cal_call \<Rightarrow> bool" where
  "isInsert (EventsInsert c p e) = True"
| "isInsert _ = False"

fun isDelete :: "cal_call \<Rightarrow> bool" where
  "isDelete (DeleteEvent c e) = True"
| "isDelete _ = False"

text \<open>
  From \<open>w\<close> to \<open>w'\<close> the sheet has not been written, every event is still there, and the
  requests logged since are no delete requests.
\<close>

definition advances :: "world \<Rightarrow> world \<Rightarrow> bool" where
  "advances w w' \<longleftrightarrow>
     sheetValues w' = sheetValues w
     \<and> (\<forall>c e. has w c e \<longrightarrow> has w' c e)
     \<and> (\<exists>cs. calls w' = calls w @ cs \<and> (\<forall>x\<in>set cs. \<not> isDelete (snd x)))"

text \<open>The script properties are the same in both worlds.\<close>

definition sameProperties :: "world \<Rightarrow> world \<Rightarrow> bool" where
  "sameProperties w w' \<longleftrightarrow> properties w' = properties w"

text \<open>The identifiers that the service has not given yet: those it will give from now on.\<close>

definition toCome :: "world \<Rightarrow> string set" where
  "toCome w = idgen w ` {issued w ..}"

text \<open>
  The calendar service is up and the identifiers it will give from now on are new: they differ
  from each other and name no calendar and no event that exists. A pass that starts in such a
  world returns.
\<close>

definition freshIds :: "world \<Rightarrow> bool" where
  "freshIds w \<longleftrightarrow>
     inj_on (idgen w) {issued w ..}
     \<and> (\<forall>n\<ge>issued w. calendars w (idgen w n) = None
                        \<and> (\<forall>c evs. calendars w c = Some evs \<longrightarrow> evs (idgen w n) = None))"

definition ready :: "world \<Rightarrow> bool" where
  "ready w \<longleftrightarrow> outage w = None \<and> freshIds w"

text \<open>
  A conference of two sessions on a host where nothing has been set up: the identifier cell of
  the first session is empty, that of the second holds an identifier that no calendar knows.
\<close>

definition sessionDay :: js_date where
  "sessionDay = \<lparr>dYear = 2021, dMonth = 3, dDay = 14, dHours = 0, dMinutes = 0, dSeconds = 0\<rparr>"

definition timeOfDay :: "nat \<Rightarrow> nat \<Rightarrow> js_date" where
  "timeOfDay h m = \<lparr>dYear = 1899, dMonth = 12, dDay = 30, dHours = h, dMinutes = m, dSeconds = 0\<rparr>"

definition introSession :: session where
  "introSession = \<lparr>sTitle = ''Intro'', sDate = sessionDay, sStart = timeOfDay 9 0,
                    sEnd = timeOfDay 10 0, sLocation = ''Room A'', sEventId = []\<rparr>"

definition opticsSession :: session where
  "opticsSession = \<lparr>sTitle = ''Optics'', sDate = sessionDay, sStart = timeOfDay 10 0,
                     sEnd = timeOfDay 11 30, sLocation = ''Room B'', sEventId = ''gone''\<rparr>"

definition conference :: world where
  "conference =
     freshWorld\<lparr>sheetValues := \<lparr>header = [''Title'', ''Date'', ''Start'', ''End'', ''Location'', ''Event''],
                                 body = [introSession, opticsSession]\<rparr>\<rparr>"

text \<open>A workshop of one session, on a host where nothing has been set up.\<close>

definition workshop :: world where
  "workshop =
     freshWorld\<lparr>sheetValues := \<lparr>header = [''Title'', ''Date'', ''Start'', ''End'', ''Location'', ''Event''],
                                 body = [introSession]\<rparr>\<rparr>"

text \<open>
  The host after one calendar pass, and after a second pass that starts where the first one
  ended.
\<close>

definition firstPass :: "world \<Rightarrow> world" where
  "firstPass w = worldOf (calendarPass w)"

definition secondPass :: "world \<Rightarrow> world" where
  "secondPass w = worldOf (calendarPass (firstPass w))"


text \<open>
  The conference when the calendar service answers six requests and then fails: the seventh
  request of the pass is the insert for the second session. \<open>conferenceRecovered\<close> is the host
  that the failed pass leaves, with the service up again.
\<close>

definition conferenceOutage :: world where
  "conferenceOutage = conference\<lparr>outage := Some 6\<rparr>"

definition conferenceRecovered :: world where
  "conferenceRecovered = (firstPass conferenceOutage)\<lparr>outage := None\<rparr>"

text \<open>
  The setters that carry the title, the times and the location of a row, and those among the
  requests logged between two worlds.
\<close>

fun isUpdate :: "cal_call \<Rightarrow> bool" where
  "isUpdate (SetTitle c e t) = True"
| "isUpdate (SetTime c e a b) = True"
| "isUpdate (SetLocation c e l) = True"
| "isUpdate _ = False"

definition updatesOf :: "world \<Rightarrow> world \<Rightarrow> cal_call list" where
  "updatesOf w w' = filter isUpdate (map snd (newCalls w w'))"

text \<open>What a call threw, if it threw.\<close>

fun thrown :: "'a result \<Rightarrow> error option" where
  "thrown (Ok x w) = None"
| "thrown (Thrown e w) = Some e"

subsection \<open>Grouping the sessions for the form\<close>

text \<open>
  A JavaScript object with string keys, as \<^verbatim>\<open>setUpForm_\<close> uses it: \<^verbatim>\<open>Object.keys\<close> lists the keys
  in the order in which they were first assigned, and assigning to an existing key keeps
  its place. (Keys that look like array indices would be listed first; the keys here are
  dates and times, which contain \<^verbatim>\<open>/\<close> and \<^verbatim>\<open>:\<close>.)
\<close>

type_synonym 'v js_object = "(string \<times> 'v) list"

fun obj_get :: "'v js_object \<Rightarrow> string \<Rightarrow> 'v option" where
  "obj_get [] k = None"
| "obj_get ((k', v) # kvs) k = (if k' = k then Some v else obj_get kvs k)"

fun obj_set :: "'v js_object \<Rightarrow> string \<Rightarrow> 'v \<Rightarrow> 'v js_object" where
  "obj_set [] k v = [(k, v)]"
| "obj_set ((k', v') # kvs) k v = (if k' = k then (k, v) # kvs else (k', v') # obj_set kvs k v)"

definition obj_keys :: "'v js_object \<Rightarrow> string list" where
  "obj_keys obj = map fst obj"

type_synonym schedule = "(string list) js_object js_object"

text \<open>
  The body of the first loop of \<^verbatim>\<open>setUpForm_\<close>, for a session with title \<open>ttl\<close> whose date and
  start time print as \<open>day\<close> and \<open>time\<close>: \<^verbatim>\<open>if (!schedule[day]) schedule[day] = {}\<close> and so on.
  An object and an array are never falsy, so each test asks whether the key is absent.
\<close>

definition addToSchedule :: "schedule \<Rightarrow> string \<times> string \<times> string \<Rightarrow> schedule" where
  "addToSchedule sched s =
     (case s of (ttl, day, time) \<Rightarrow>
        let sched1 = (if obj_get sched day = None then obj_set sched day [] else sched);
            dayObj = (case obj_get sched1 day of None \<Rightarrow> [] | Some d \<Rightarrow> d);
            dayObj1 = (if obj_get dayObj time = None then obj_set dayObj time [] else dayObj);
            slot = (case obj_get dayObj1 time of None \<Rightarrow> [] | Some ts \<Rightarrow> ts)
        in obj_set sched1 day (obj_set dayObj1 time (slot @ [ttl])))"

definition buildSchedule :: "(string \<times> string \<times> string) list \<Rightarrow> schedule" where
  "buildSchedule rows = foldl addToSchedule [] rows"

text \<open>Decimal digits, and the \<^verbatim>\<open>en-GB\<close> formats \<^verbatim>\<open>dd/mm/yyyy\<close> and \<^verbatim>\<open>hh:mm:ss\<close>.\<close>

definition digit :: "nat \<Rightarrow> char" where
  "digit n = ''0123456789'' ! (n mod 10)"

fun decimal :: "nat \<Rightarrow> string" where
  "decimal n = (if n < 10 then [digit n] else decimal (n div 10) @ [digit n])"

declare decimal.simps [simp del]

definition pad2 :: "nat \<Rightarrow> string" where
  "pad2 n = (if n < 10 then CHR ''0'' # decimal n else decimal n)"

definition toLocaleDateString :: "js_date \<Rightarrow> string" where
  "toLocaleDateString d = pad2 (dDay d) @ ''/'' @ pad2 (dMonth d) @ ''/'' @ decimal (dYear d)"

definition toLocaleTimeString :: "js_date \<Rightarrow> string" where
  "toLocaleTimeString d = pad2 (dHours d) @ '':'' @ pad2 (dMinutes d) @ '':'' @ pad2 (dSeconds d)"

text \<open>The first loop of \<^verbatim>\<open>setUpForm_\<close>: the schedule of the data rows of \<^verbatim>\<open>values\<close>.\<close>

definition sessionKey :: "session \<Rightarrow> string \<times> string \<times> string" where
  "sessionKey s = (sTitle s, toLocaleDateString (sDate s), toLocaleTimeString (sStart s))"

definition scheduleOf :: "table_values \<Rightarrow> schedule" where
  "scheduleOf values = buildSchedule (map sessionKey (body values))"

text \<open>
  The last loop of \<^verbatim>\<open>setUpForm_\<close>: one section header for each day and, under it, one
  multiple-choice question for each time of that day.
\<close>

definition scheduleItems :: "schedule \<Rightarrow> form_item list" where
  "scheduleItems sched =
     concat (map (\<lambda>day. SectionHeader (''Sessions for '' @ day) #
                   map (\<lambda>time. MultipleChoice (time @ '' '' @ day)
                                  (case obj_get (case obj_get sched day of None \<Rightarrow> [] | Some d \<Rightarrow> d) time
                                   of None \<Rightarrow> [] | Some ts \<Rightarrow> ts))
                       (obj_keys (case obj_get sched day of None \<Rightarrow> [] | Some d \<Rightarrow> d)))
                 (obj_keys sched))"

fun isChoice :: "form_item \<Rightarrow> bool" where
  "isChoice (MultipleChoice t cs) = True"
| "isChoice _ = False"

text \<open>The groups of a schedule in the order in which the questions are made.\<close>

definition groups :: "schedule \<Rightarrow> ((string \<times> string) \<times> string list) list" where
  "groups sched = concat (map (\<lambda>(day, slots). map (\<lambda>(time, ts). ((day, time), ts)) slots) sched)"

text \<open>
  The grouping as the specification words it: the keys (day, time) in the order in which
  they are first seen, each with the titles of its rows in the order of the rows.
\<close>

definition firstSeen :: "'a list \<Rightarrow> 'a list" where
  "firstSeen xs = rev (remdups (rev xs))"

definition titlesAt :: "(string \<times> string \<times> string) list \<Rightarrow> string \<Rightarrow> string \<Rightarrow> string list" where
  "titlesAt rows d t = map fst (filter (\<lambda>r. fst (snd r) = d \<and> snd (snd r) = t) rows)"

definition groupsByKey :: "(string \<times> string \<times> string) list \<Rightarrow> ((string \<times> string) \<times> string list) list" where
  "groupsByKey rows = map (\<lambda>(d, t). ((d, t), titlesAt rows d t)) (firstSeen (map snd rows))"

text \<open>
  The grouping the code makes: the days in the order in which they are first seen, under each
  day its times in the order in which they are first seen on that day.
\<close>

definition timesOn :: "(string \<times> string \<times> string) list \<Rightarrow> string \<Rightarrow> string list" where
  "timesOn rows d = firstSeen (map (\<lambda>r. snd (snd r)) (filter (\<lambda>r. fst (snd r) = d) rows))"

definition slotsOn :: "(string \<times> string \<times> string) list \<Rightarrow> string \<Rightarrow> (string list) js_object" where
  "slotsOn rows d = map (\<lambda>t. (t, titlesAt rows d t)) (timesOn rows d)"

definition groupsByDay :: "(string \<times> string \<times> string) list \<Rightarrow> schedule" where
  "groupsByDay rows = map (\<lambda>d. (d, slotsOn rows d)) (firstSeen (map (\<lambda>r. fst (snd r)) rows))"

section \<open>The timesheet script\<close>

text \<open>
  The second script of \<^verbatim>\<open>Code.js\<close> works on the active sheet. A cell value, and the value of a
  variable of the script, is a number, a string, \<^verbatim>\<open>NaN\<close> or \<^verbatim>\<open>undefined\<close>; an empty cell reads
  as the empty string. Numbers are integers here: sums and products of integers are exact in
  JavaScript as long as they stay below \<open>2 ^ 53\<close>, and fractions are left out.
\<close>

datatype jsval = Num int | Str string | NaN | Undefined

text \<open>
  The sheet: its cells by row and column, both counted from 1, and what \<^verbatim>\<open>getLastRow\<close> and
  \<^verbatim>\<open>getLastColumn\<close> answer, the last row and the last column that have content.
\<close>

record sheet =
  cells :: "nat \<Rightarrow> nat \<Rightarrow> jsval"
  lastRow :: nat
  lastColumn :: nat

definition getValue :: "sheet \<Rightarrow> nat \<Rightarrow> nat \<Rightarrow> jsval" where
  "getValue sh r c = cells sh r c"

text \<open>
  \<^verbatim>\<open>getRange(r, c).setValue(v)\<close>. Writing a value other than the empty string makes the
  cell one with content, so the last row and the last column are at least \<open>r\<close> and \<open>c\<close>
  afterwards. The script never writes the empty string.
\<close>

definition setValue :: "sheet \<Rightarrow> nat \<Rightarrow> nat \<Rightarrow> jsval \<Rightarrow> sheet" where
  "setValue sh r c v =
     sh\<lparr>cells := (cells sh)(r := (cells sh r)(c := v)),
        lastRow := (if v = Str [] then lastRow sh else max (lastRow sh) r),
        lastColumn := (if v = Str [] then lastColumn sh else max (lastColumn sh) c)\<rparr>"

text \<open>
  \<^verbatim>\<open>insertColumnAfter(k)\<close>: an empty column at \<open>k + 1\<close>; the columns that were after \<open>k\<close> move
  one place to the right.
\<close>

definition insertColumnAfter :: "sheet \<Rightarrow> nat \<Rightarrow> sheet" where
  "insertColumnAfter sh k =
     sh\<lparr>cells := (\<lambda>r c. if c \<le> k then cells sh r c
                         else if c = Suc k then Str []
                         else cells sh r (c - 1)),
        lastColumn := (if k < lastColumn sh then Suc (lastColumn sh) else lastColumn sh)\<rparr>"

definition HRS_START :: nat where "HRS_START = 4"
definition HRS_END :: nat where "HRS_END = 8"
definition HRLY_PAY_COLUMN :: nat where "HRLY_PAY_COLUMN = 9"
definition APPROVAL_COLUMN :: nat where "APPROVAL_COLUMN = 11"
definition EMAIL_COLUMN :: nat where "EMAIL_COLUMN = 3"

text \<open>
  \<^verbatim>\<open>v == 'TEXT'\<close> for the literals of the script (\<^verbatim>\<open>'NOTIFIED'\<close>, \<^verbatim>\<open>'APPROVED'\<close>,
  \<^verbatim>\<open>'NOT APPROVED'\<close>, \<^verbatim>\<open>'IN PROGRESS'\<close>). None of them reads as a number, so a number, \<^verbatim>\<open>NaN\<close>
  and \<^verbatim>\<open>undefined\<close> are never equal to them, and a string is when it is the same string.
\<close>

definition looseEq :: "jsval \<Rightarrow> string \<Rightarrow> bool" where
  "looseEq v lit = (v = Str lit)"

subsection \<open>\<^verbatim>\<open>sendEmails\<close>\<close>

text \<open>
  A call of \<^verbatim>\<open>MailApp.sendEmail(email, subject, message)\<close>, recorded with its arguments as
  they are, \<^verbatim>\<open>undefined\<close> included. \<open>mRow\<close> is not part of the call: it records the row the loop
  was at, so that the mails of a row can be told apart.
\<close>

record mail =
  mRow :: nat
  mTo :: jsval
  mSubject :: jsval
  mMessage :: jsval

text \<open>
  The state of the loop of \<^verbatim>\<open>sendEmails\<close>. \<^verbatim>\<open>message\<close> and \<^verbatim>\<open>subject\<close> are declared with
  \<^verbatim>\<open>var\<close> inside the loop body: they are variables of the function, \<^verbatim>\<open>undefined\<close> at the start,
  and they keep their values from one iteration to the next.
\<close>

record send_state =
  stSheet :: sheet
  outbox :: "mail list"
  subject :: jsval
  message :: jsval

definition notify :: "nat \<Rightarrow> nat \<Rightarrow> jsval \<Rightarrow> send_state \<Rightarrow> send_state" where
  "notify i lastCol email st =
     st\<lparr>outbox := outbox st @ [\<lparr>mRow = i, mTo = email, mSubject = subject st, mMessage = message st\<rparr>],
        stSheet := setValue (stSheet st) i lastCol (Str ''NOTIFIED'')\<rparr>"

text \<open>One iteration of the loop, at row \<open>i\<close>.\<close>

definition sendStep :: "nat \<Rightarrow> send_state \<Rightarrow> nat \<Rightarrow> send_state" where
  "sendStep lastCol st i =
     (let notifiedStatus = getValue (stSheet st) i lastCol in
      if looseEq notifiedStatus ''NOTIFIED'' then st
      else
        let email = getValue (stSheet st) i 3;
            dropdownValue = getValue (stSheet st) i APPROVAL_COLUMN
        in if looseEq dropdownValue ''APPROVED''
           then notify i lastCol email
                  (st\<lparr>message := Str ''Your timesheet has been approved'',
                      subject := Str ''TimeSheet Approval''\<rparr>)
           else if looseEq dropdownValue ''NOT APPROVED''
           then notify i lastCol email
                  (st\<lparr>message := Str ''NOT APPROVED'', subject := Str ''TimeSheet not Approved''\<rparr>)
           else if looseEq dropdownValue ''IN PROGRESS'' then st
           else notify i lastCol email st)"

text \<open>
  \<^verbatim>\<open>sendEmails\<close>: the loop \<^verbatim>\<open>for (i = 2; i <= lastRow; i++)\<close>, with \<^verbatim>\<open>lastRow\<close> and \<^verbatim>\<open>lastCol\<close> read once
  before it. The result is the sheet and the mails sent.
\<close>

definition sendEmails :: "sheet \<Rightarrow> send_state" where
  "sendEmails sh =
     (let lastRow = lastRow sh; lastCol = lastColumn sh
      in foldl (sendStep lastCol)
           \<lparr>stSheet = sh, outbox = [], subject = Undefined, message = Undefined\<rparr>
           [2 ..< Suc lastRow])"

subsection \<open>\<^verbatim>\<open>calculatePay\<close>\<close>

text \<open>
  The conversions of JavaScript that \<^verbatim>\<open>numHrs + numHrsCell.getValue()\<close> and
  \<^verbatim>\<open>numHrs * hrlyRate\<close> make. \<^verbatim>\<open>+\<close> adds two numbers and joins the operands as strings as soon as
  one of them is a string. \<^verbatim>\<open>*\<close> turns both operands into numbers first.
\<close>

definition toString :: "jsval \<Rightarrow> string" where
  "toString v =
     (case v of
        Num n \<Rightarrow> (if n < 0 then CHR ''-'' # decimal (nat (- n)) else decimal (nat n))
      | Str s \<Rightarrow> s
      | NaN \<Rightarrow> ''NaN''
      | Undefined \<Rightarrow> ''undefined'')"

definition js_add :: "jsval \<Rightarrow> jsval \<Rightarrow> jsval" where
  "js_add a b =
     (case (a, b) of
        (Num x, Num y) \<Rightarrow> Num (x + y)
      | (Str x, _) \<Rightarrow> Str (x @ toString b)
      | (_, Str y) \<Rightarrow> Str (toString a @ y)
      | _ \<Rightarrow> NaN)"

definition isDigit :: "char \<Rightarrow> bool" where
  "isDigit c = (c \<in> set ''0123456789'')"

definition digitValue :: "char \<Rightarrow> nat" where
  "digitValue c = length (takeWhile (\<lambda>d. d \<noteq> c) ''0123456789'')"

definition parseDecimal :: "string \<Rightarrow> nat" where
  "parseDecimal s = foldl (\<lambda>n c. 10 * n + digitValue c) 0 s"

text \<open>
  \<^verbatim>\<open>ToNumber\<close>. The empty string is 0 and a string of decimal digits is the number it
  writes. Other strings (with a sign, blanks, a fraction, an exponent, a radix prefix, or
  no number at all) are outside this model: the answer is \<open>None\<close>.
\<close>

definition toNumber :: "jsval \<Rightarrow> jsval option" where
  "toNumber v =
     (case v of
        Num n \<Rightarrow> Some (Num n)
      | Str s \<Rightarrow> (if list_all isDigit s then Some (Num (int (parseDecimal s))) else None)
      | NaN \<Rightarrow> Some NaN
      | Undefined \<Rightarrow> Some NaN)"

definition js_mul :: "jsval \<Rightarrow> jsval \<Rightarrow> jsval option" where
  "js_mul a b =
     (case (toNumber a, toNumber b) of
        (Some (Num x), Some (Num y)) \<Rightarrow> Some (Num (x * y))
      | (Some _, Some _) \<Rightarrow> Some NaN
      | _ \<Rightarrow> None)"

text \<open>The inner loop: \<^verbatim>\<open>numHrs\<close> after the columns \<^verbatim>\<open>HRS_START\<close> to \<^verbatim>\<open>HRS_END\<close> of row \<open>i\<close>.\<close>

definition sumHours :: "sheet \<Rightarrow> nat \<Rightarrow> jsval" where
  "sumHours sh i = foldl (\<lambda>numHrs j. js_add numHrs (getValue sh i j)) (Num 0) [HRS_START ..< Suc HRS_END]"

text \<open>One iteration of the outer loop; \<open>None\<close> when the product is outside the model.\<close>

definition payStep :: "nat \<Rightarrow> sheet option \<Rightarrow> nat \<Rightarrow> sheet option" where
  "payStep lastCol acc i =
     (case acc of
        None \<Rightarrow> None
      | Some sh \<Rightarrow>
          let numHrs = sumHours sh i;
              hrlyRate = getValue sh i HRLY_PAY_COLUMN
          in (case js_mul numHrs hrlyRate of
                None \<Rightarrow> None
              | Some weeklyPay \<Rightarrow> Some (setValue sh i (lastCol + 1) weeklyPay)))"

definition calculatePay :: "sheet \<Rightarrow> sheet option" where
  "calculatePay sh =
     (let lastCol = lastColumn sh; lastRow = lastRow sh;
          sh1 = insertColumnAfter sh lastCol;
          sh2 = setValue sh1 1 (lastCol + 1) (Str ''WEEKLY PAY'')
      in foldl (payStep lastCol) (Some sh2) [2 ..< Suc lastRow])"

text \<open>A sheet from its rows, for examples: the cell outside the rows are empty.\<close>

definition cellOf :: "jsval list list \<Rightarrow> nat \<Rightarrow> nat \<Rightarrow> jsval" where
  "cellOf rows r c =
     (if 1 \<le> r \<and> r \<le> length rows \<and> 1 \<le> c \<and> c \<le> length (rows ! (r - 1))
      then rows ! (r - 1) ! (c - 1) else Str [])"

definition sheetOf :: "jsval list list \<Rightarrow> sheet" where
  "sheetOf rows = \<lparr>cells = cellOf rows, lastRow = length rows,
                   lastColumn = foldr max (map length rows) 0\<rparr>"

text \<open>
  A row is settled when \<^verbatim>\<open>sendEmails\<close> passes it by: it is marked as notified, or its approval
  is in progress.
\<close>

definition settled :: "sheet \<Rightarrow> nat \<Rightarrow> nat \<Rightarrow> bool" where
  "settled sh lastCol i =
     (looseEq (getValue sh i lastCol) ''NOTIFIED''
      \<or> looseEq (getValue sh i APPROVAL_COLUMN) ''IN PROGRESS'')"

text \<open>
  A timesheet of three employees. Ann's timesheet is approved and she has not been notified.
  Bob did not work on Monday and the approval cell of his row is empty. Cy has been notified.
\<close>

definition timesheet :: sheet where
  "timesheet = sheetOf [
     [Str ''NAME'', Str ''ID'', Str ''EMAIL'', Str ''MON'', Str ''TUE'', Str ''WED'', Str ''THU'',
      Str ''FRI'', Str ''RATE'', Str ''NOTES'', Str ''APPROVAL'', Str ''NOTIFIED STATUS''],
     [Str ''Ann'', Num 1, Str ''ann@example.org'', Num 8, Num 8, Num 8, Num 8, Num 8, Num 10,
      Str [], Str ''APPROVED'', Str ''NOT NOTIFIED''],
     [Str ''Bob'', Num 2, Str ''bob@example.org'', Str [], Num 8, Num 8, Num 8, Num 8, Num 10,
      Str [], Str [], Str ''NOT NOTIFIED''],
     [Str ''Cy'', Num 3, Str ''cy@example.org'', Num 4, Num 4, Num 4, Num 4, Num 4, Num 20,
      Str [], Str ''APPROVED'', Str ''NOTIFIED'']]"

text \<open>
  The pay of row \<open>i\<close> as the documentation of \<^verbatim>\<open>calculatePay\<close> means it: the hours of the columns
  \<^verbatim>\<open>HRS_START\<close> to \<^verbatim>\<open>HRS_END\<close> added up, times the hourly rate. A cell with no number counts 0.
\<close>

definition numOf :: "jsval \<Rightarrow> int" where
  "numOf v = (case v of Num n \<Rightarrow> n | _ \<Rightarrow> 0)"

definition isNum :: "jsval \<Rightarrow> bool" where
  "isNum v = (case v of Num n \<Rightarrow> True | _ \<Rightarrow> False)"

definition weeklyPayOf :: "sheet \<Rightarrow> nat \<Rightarrow> int" where
  "weeklyPayOf sh i =
     (\<Sum>j = HRS_START..HRS_END. numOf (getValue sh i j)) * numOf (getValue sh i HRLY_PAY_COLUMN)"

text \<open>The cells to the right of the last column are empty.\<close>

definition emptyBeyond :: "sheet \<Rightarrow> bool" where
  "emptyBeyond sh = (\<forall>r c. lastColumn sh < c \<longrightarrow> cells sh r c = Str [])"

text \<open>The hour cells and the rate cell of row \<open>i\<close> hold numbers.\<close>

definition numericRow :: "sheet \<Rightarrow> nat \<Rightarrow> bool" where
  "numericRow sh i = (\<forall>j\<in>{HRS_START..HRLY_PAY_COLUMN}. isNum (getValue sh i j))"

section \<open>Theorems\<close>

subsection \<open>The calendar pass\<close>

lemma bind_OkD: "bind m f = Ok y w' \<Longrightarrow> \<exists>x w1. m = Ok x w1 \<and> f x w1 = Ok y w'"
  by (cases m) simp_all

lemma tick_OkD:
  "tick w = Ok u w' \<Longrightarrow>
   frame w w' \<and> calendars w' = calendars w \<and> calls w' = calls w \<and> issued w' = issued w \<and> uuids w' = uuids w"
  by (auto simp: tick_def frame_def split: option.splits nat.splits)

lemma getEventById_OkD:
  "getEventById (Some c) eid w = Ok r w' \<Longrightarrow>
   (\<exists>evs. calendars w c = Some evs \<and> (evs eid = None \<longrightarrow> r = None) \<and> (evs eid \<noteq> None \<longrightarrow> r = Some eid))
   \<and> frame w w' \<and> calendars w' = calendars w \<and> calls w' = calls w \<and> issued w' = issued w \<and> uuids w' = uuids w"
  by (auto simp: getEventById_def dest!: bind_OkD tick_OkD split: option.splits)

lemma updateEvent_OkD:
  "updateEvent i c e f call w = Ok u w' \<Longrightarrow>
   (\<exists>evs ev. calendars w c = Some evs \<and> evs e = Some ev \<and> calendars w' = (calendars w)(c \<mapsto> evs(e \<mapsto> f ev)))
   \<and> calls w' = calls w @ [(i, call)]
   \<and> frame w w' \<and> issued w' = issued w \<and> uuids w' = uuids w"
  by (auto simp: updateEvent_def frame_def dest!: bind_OkD tick_OkD split: option.splits)

lemma eventsInsert_OkD:
  "eventsInsert i p c w = Ok eid w' \<Longrightarrow>
   eid = idgen w (issued w)
   \<and> (\<exists>evs. calendars w c = Some evs \<and> evs eid = None \<and> calendars w' = (calendars w)(c \<mapsto> evs(eid \<mapsto> eventOf p)))
   \<and> calls w' = calls w @ [(i, EventsInsert c p eid)]
   \<and> frame w w' \<and> issued w' = Suc (issued w) \<and> uuids w' = uuids w"
  by (auto simp: eventsInsert_def Let_def frame_def dest!: bind_OkD tick_OkD split: option.splits if_splits)

lemma syncRow_update:
  assumes "syncRow (Some c) c i s w = Ok s' w'" "calendars w c = Some evs" "evs (sEventId s) = Some ev"
  shows "s' = s \<and> calendars w' = (calendars w)(c \<mapsto> evs(sEventId s \<mapsto> updatedEvent s ev))
     \<and> calls w' = calls w @ map (Pair i) (updateCalls c s)
     \<and> frame w w' \<and> issued w' = issued w \<and> uuids w' = uuids w"
  using assms
  apply (simp add: syncRow_def Let_def)
  apply (auto dest!: bind_OkD getEventById_OkD)
  apply (auto simp: setTitle_def setTime_def setLocation_def setGuestsCanSeeGuests_def dest!: updateEvent_OkD split: option.splits)
   apply (auto simp: updateCalls_def updatedEvent_def frame_def)
  done

lemma syncRow_create:
  assumes "syncRow (Some c) c i s w = Ok s' w'" "calendars w c = Some evs" "evs (sEventId s) = None"
  shows "s' = s\<lparr>sEventId := idgen w (issued w)\<rparr> \<and> evs (idgen w (issued w)) = None
     \<and> calendars w' = (calendars w)(c \<mapsto> evs(idgen w (issued w) \<mapsto>
            (eventOf (payloadOf s (uuidgen w (uuids w))))\<lparr>guestsCanSeeGuests := True\<rparr>))
     \<and> calls w' = calls w @ map (Pair i) (createCalls c s (uuidgen w (uuids w)) (idgen w (issued w)))
     \<and> frame w w' \<and> issued w' = Suc (issued w) \<and> uuids w' = Suc (uuids w)"
  using assms
  apply (simp add: syncRow_def Let_def)
  apply (auto dest!: bind_OkD getEventById_OkD)
  apply (auto simp: getUuid_def setGuestsCanSeeGuests_def dest!: updateEvent_OkD eventsInsert_OkD bind_OkD getEventById_OkD split: option.splits if_splits)
   apply (auto simp: createCalls_def frame_def)
  done

lemma syncRow_calendar:
  "syncRow (Some c) c i s w = Ok s' w' \<Longrightarrow> \<exists>evs. calendars w c = Some evs"
  by (auto simp: syncRow_def Let_def dest!: bind_OkD getEventById_OkD)

lemma syncRow_Ok:
  assumes "syncRow (Some c) c i s w = Ok s' w'"
  shows "frame w w' \<and> has w' c (sEventId s') \<and> dom (calendars w') = dom (calendars w)
     \<and> issued w \<le> issued w'
     \<and> (\<forall>e. has w c e \<longrightarrow> has w' c e)
     \<and> (\<forall>e. has w' c e \<longrightarrow> has w c e \<or> e = idgen w (issued w))
     \<and> (if has w c (sEventId s)
         then s' = s \<and> calls w' = calls w @ map (Pair i) (updateCalls c s)
         else \<exists>uuid. s' = s\<lparr>sEventId := sEventId s'\<rparr>
                \<and> calls w' = calls w @ map (Pair i) (createCalls c s uuid (sEventId s')))"
proof -
  from assms obtain evs where evs: "calendars w c = Some evs"
    by (auto dest: syncRow_calendar)
  show ?thesis
  proof (cases "evs (sEventId s)")
    case None
    from syncRow_create [OF assms evs None] evs None show ?thesis
      by (auto simp: has_def)
  next
    case (Some ev)
    from syncRow_update [OF assms evs Some] evs Some show ?thesis
      by (auto simp: has_def)
  qed
qed

lemma newCalls_append: "calls w' = calls w @ cs \<Longrightarrow> newCalls w w' = cs"
  by (simp add: newCalls_def)

lemma frame_trans: "frame w w1 \<Longrightarrow> frame w1 w' \<Longrightarrow> frame w w'"
  by (simp add: frame_def)

lemma frame_refl: "frame w w"
  by (simp add: frame_def)

lemma toCome_next: "idgen w (issued w) \<in> toCome w"
  by (simp add: toCome_def)

lemma toCome_later: "idgen w1 = idgen w \<Longrightarrow> issued w \<le> issued w1 \<Longrightarrow> toCome w1 \<subseteq> toCome w"
  by (auto simp: toCome_def)

lemma syncRows_Ok:
  "syncRows (Some c) c i rows w = Ok rows' w' \<Longrightarrow>
   length rows' = length rows \<and> frame w w' \<and> dom (calendars w') = dom (calendars w)
   \<and> issued w \<le> issued w'
   \<and> (\<forall>e. has w c e \<longrightarrow> has w' c e)
   \<and> (\<forall>e. has w' c e \<longrightarrow> has w c e \<or> e \<in> toCome w)
   \<and> calls w' = calls w @ newCalls w w'
   \<and> (\<forall>x\<in>set (newCalls w w'). i \<le> fst x \<and> fst x < i + length rows)
   \<and> (\<forall>k<length rows.
         has w' c (sEventId (rows' ! k))
         \<and> (updatedRow c (i + k) (rows ! k) (rows' ! k) w w' \<or> createdRow c (i + k) (rows ! k) (rows' ! k) w w')
         \<and> (has w c (sEventId (rows ! k)) \<longrightarrow> updatedRow c (i + k) (rows ! k) (rows' ! k) w w')
         \<and> (\<not> has w c (sEventId (rows ! k)) \<and> sEventId (rows ! k) \<notin> toCome w
              \<longrightarrow> createdRow c (i + k) (rows ! k) (rows' ! k) w w'))"
proof (induction rows arbitrary: i w rows')
  case Nil
  then show ?case by (simp add: frame_refl newCalls_def)
next
  case (Cons s rest)
  from Cons.prems obtain s1 w1 rest' where
    head: "syncRow (Some c) c i s w = Ok s1 w1"
    and tail: "syncRows (Some c) c (Suc i) rest w1 = Ok rest' w'"
    and rows': "rows' = s1 # rest'"
    by (auto dest!: bind_OkD)
  note H = syncRow_Ok [OF head]
  note T = Cons.IH [OF tail]
  have "\<exists>hs. calls w1 = calls w @ map (Pair i) hs
    \<and> (if has w c (sEventId s) then s1 = s \<and> hs = updateCalls c s
        else \<exists>uuid. s1 = s\<lparr>sEventId := sEventId s1\<rparr> \<and> hs = createCalls c s uuid (sEventId s1))"
  proof (cases "has w c (sEventId s)")
    case True
    with H show ?thesis by simp
  next
    case False
    with H obtain uuid where "s1 = s\<lparr>sEventId := sEventId s1\<rparr>"
      "calls w1 = calls w @ map (Pair i) (createCalls c s uuid (sEventId s1))"
      by auto
    with False show ?thesis by auto
  qed
  then obtain hs where hs: "calls w1 = calls w @ map (Pair i) hs"
    and hd_cases: "if has w c (sEventId s) then s1 = s \<and> hs = updateCalls c s
        else \<exists>uuid. s1 = s\<lparr>sEventId := sEventId s1\<rparr> \<and> hs = createCalls c s uuid (sEventId s1)"
    by blast
  from T have cs: "calls w' = calls w1 @ newCalls w1 w'"
    and Tlen: "length rest' = length rest"
    and Tfr: "frame w1 w'"
    and Tdm: "dom (calendars w') = dom (calendars w1)"
    and Tkeep: "\<forall>e. has w1 c e \<longrightarrow> has w' c e"
    and Torig: "\<forall>e. has w' c e \<longrightarrow> has w1 c e \<or> e \<in> toCome w1"
    and Tiss: "issued w1 \<le> issued w'"
    and tags: "\<forall>x\<in>set (newCalls w1 w'). Suc i \<le> fst x \<and> fst x < Suc i + length rest"
    by blast+
  from H have Hfr: "frame w w1"
    and Hhas: "has w1 c (sEventId s1)"
    and Hdm: "dom (calendars w1) = dom (calendars w)"
    and Hkeep: "\<forall>e. has w c e \<longrightarrow> has w1 c e"
    and Horig: "\<forall>e. has w1 c e \<longrightarrow> has w c e \<or> e = idgen w (issued w)"
    and Hiss: "issued w \<le> issued w1"
    by blast+
  have nc: "newCalls w w' = map (Pair i) hs @ newCalls w1 w'"
  proof -
    have "calls w' = calls w @ (map (Pair i) hs @ newCalls w1 w')"
      by (subst cs) (simp add: hs)
    then show ?thesis by (rule newCalls_append)
  qed
  have idg: "idgen w1 = idgen w" using Hfr by (simp add: frame_def)
  have sub: "toCome w1 \<subseteq> toCome w" using idg Hiss by (rule toCome_later)
  have Horig': "\<forall>e. has w1 c e \<longrightarrow> has w c e \<or> e \<in> toCome w"
    using Horig toCome_next [of w] by auto
  have iss: "issued w \<le> issued w'" using Hiss Tiss by simp
  have rc0: "rowCalls i w w' = hs"
  proof -
    have "filter (\<lambda>x. fst x = i) (newCalls w1 w') = []"
      using tags by (auto simp: filter_empty_conv)
    then show ?thesis by (simp add: rowCalls_def nc comp_def)
  qed
  have rcS: "rowCalls (i + Suc k) w w' = rowCalls (Suc i + k) w1 w'" for k
    by (simp add: rowCalls_def nc)
  have len: "length rows' = length (s # rest)" using Tlen rows' by simp
  have fr: "frame w w'" using Hfr Tfr by (rule frame_trans)
  have dm: "dom (calendars w') = dom (calendars w)" using Hdm Tdm by simp
  have keep: "\<forall>e. has w c e \<longrightarrow> has w' c e" using Hkeep Tkeep by blast
  have orig: "\<forall>e. has w' c e \<longrightarrow> has w c e \<or> e \<in> toCome w"
    using Horig' Torig sub by blast
  have app: "calls w' = calls w @ newCalls w w'"
    unfolding nc by (subst cs) (simp add: hs)
  have tg: "\<forall>x\<in>set (newCalls w w'). i \<le> fst x \<and> fst x < i + length (s # rest)"
    using tags by (auto simp: nc)
  have per: "has w' c (sEventId (rows' ! k))
         \<and> (updatedRow c (i + k) ((s # rest) ! k) (rows' ! k) w w' \<or> createdRow c (i + k) ((s # rest) ! k) (rows' ! k) w w')
         \<and> (has w c (sEventId ((s # rest) ! k)) \<longrightarrow> updatedRow c (i + k) ((s # rest) ! k) (rows' ! k) w w')
         \<and> (\<not> has w c (sEventId ((s # rest) ! k)) \<and> sEventId ((s # rest) ! k) \<notin> toCome w
              \<longrightarrow> createdRow c (i + k) ((s # rest) ! k) (rows' ! k) w w')"
    if k: "k < length (s # rest)" for k
  proof (cases k)
    case 0
    have "has w' c (sEventId s1)" using Hhas Tkeep by blast
    moreover have "has w c (sEventId s) \<longrightarrow> updatedRow c i s s1 w w'"
      using hd_cases by (simp add: updatedRow_def rc0)
    moreover have "\<not> has w c (sEventId s) \<longrightarrow> createdRow c i s s1 w w'"
      using hd_cases by (auto simp: createdRow_def rc0)
    ultimately show ?thesis using 0 rows' by auto
  next
    case (Suc j)
    with k have j: "j < length rest" by simp
    from T j have P: "has w' c (sEventId (rest' ! j))"
      and D: "updatedRow c (Suc i + j) (rest ! j) (rest' ! j) w1 w' \<or> createdRow c (Suc i + j) (rest ! j) (rest' ! j) w1 w'"
      and U: "has w1 c (sEventId (rest ! j)) \<longrightarrow> updatedRow c (Suc i + j) (rest ! j) (rest' ! j) w1 w'"
      and C: "\<not> has w1 c (sEventId (rest ! j)) \<and> sEventId (rest ! j) \<notin> toCome w1
              \<longrightarrow> createdRow c (Suc i + j) (rest ! j) (rest' ! j) w1 w'"
      by blast+
    have shift_u: "updatedRow c (Suc i + j) a b w1 w' = updatedRow c (i + Suc j) a b w w'" for a b
      using rcS [of j] by (simp add: updatedRow_def)
    have shift_c: "createdRow c (Suc i + j) a b w1 w' = createdRow c (i + Suc j) a b w w'" for a b
      using rcS [of j] by (simp add: createdRow_def)
    have h1: "has w c (sEventId (rest ! j)) \<longrightarrow> has w1 c (sEventId (rest ! j))" using Hkeep by blast
    have h2: "\<not> has w c (sEventId (rest ! j)) \<and> sEventId (rest ! j) \<notin> toCome w
        \<longrightarrow> \<not> has w1 c (sEventId (rest ! j))"
      using Horig' by blast
    have h3: "sEventId (rest ! j) \<notin> toCome w \<longrightarrow> sEventId (rest ! j) \<notin> toCome w1"
      using sub by blast
    from P D U C h1 h2 h3 show ?thesis
      unfolding Suc rows' shift_u shift_c by auto
  qed
  from per have per': "\<forall>k<length (s # rest). has w' c (sEventId (rows' ! k))
         \<and> (updatedRow c (i + k) ((s # rest) ! k) (rows' ! k) w w' \<or> createdRow c (i + k) ((s # rest) ! k) (rows' ! k) w w')
         \<and> (has w c (sEventId ((s # rest) ! k)) \<longrightarrow> updatedRow c (i + k) ((s # rest) ! k) (rows' ! k) w w')
         \<and> (\<not> has w c (sEventId ((s # rest) ! k)) \<and> sEventId ((s # rest) ! k) \<notin> toCome w
              \<longrightarrow> createdRow c (i + k) ((s # rest) ! k) (rows' ! k) w w')"
    by (intro allI impI)
  show ?case
    apply (intro conjI)
    subgoal by (rule len)
    subgoal by (rule fr)
    subgoal by (rule dm)
    subgoal by (rule iss)
    subgoal by (rule keep)
    subgoal by (rule orig)
    subgoal by (rule app)
    subgoal by (rule tg)
    subgoal by (rule per')
    done
qed

lemma getCalendarById_OkD:
  "getCalendarById c w = Ok r w' \<Longrightarrow>
   r = (if calendars w c = None then None else Some c)
   \<and> frame w w' \<and> calendars w' = calendars w \<and> calls w' = calls w \<and> issued w' = issued w \<and> uuids w' = uuids w"
  by (auto simp: getCalendarById_def dest!: bind_OkD tick_OkD)

lemma createCalendar_OkD:
  "createCalendar name w = Ok c w' \<Longrightarrow>
   calendars w c = None \<and> calendars w' = (calendars w)(c \<mapsto> Map.empty)
   \<and> calls w' = calls w @ [(0, CreateCalendar name)]
   \<and> frame w w' \<and> issued w' = Suc (issued w) \<and> uuids w' = uuids w"
  by (auto simp: createCalendar_def Let_def frame_def dest!: bind_OkD tick_OkD split: if_splits)

lemma openCalendarOfPass_Ok:
  assumes "openCalendarOfPass w = Ok (cal, c) w1"
  shows "cal = Some c \<and> passCalendar w1 = Some c
     \<and> idgen w1 = idgen w \<and> issued w \<le> issued w1 \<and> sheetValues w1 = sheetValues w
     \<and> (\<forall>e. has w1 c e \<longleftrightarrow> resolves w e)
     \<and> (\<exists>cs. calls w1 = calls w @ cs
            \<and> (\<forall>x\<in>set cs. x = (0, CreateCalendar ''LUMICKS Academy Calendar''))
            \<and> (passCalendar w \<noteq> None \<longrightarrow> cs = []))
     \<and> (passCalendar w \<noteq> None \<longrightarrow> passCalendar w = Some c \<and> calls w1 = calls w \<and> calendars w1 = calendars w)"
proof (cases "passCalendar w")
  case None
  with assms show ?thesis
    by (auto simp: openCalendarOfPass_def passCalendar_def resolves_def has_def frame_def
        dest!: bind_OkD getCalendarById_OkD createCalendar_OkD split: option.splits if_splits)
next
  case (Some c')
  with assms show ?thesis
    by (auto simp: openCalendarOfPass_def passCalendar_def resolves_def has_def frame_def
        dest!: bind_OkD getCalendarById_OkD createCalendar_OkD split: option.splits if_splits)
qed

lemma rowCalls_pass:
  assumes "calls w1 = calls w @ cs0" "\<forall>x\<in>set cs0. fst x = 0" "calls w2 = calls w1 @ newCalls w1 w2"
    "calls w' = calls w2"
  shows "rowCalls (Suc k) w w' = rowCalls (Suc k) w1 w2"
proof -
  have "calls w' = calls w @ (cs0 @ newCalls w1 w2)"
    using assms by simp
  then have "newCalls w w' = cs0 @ newCalls w1 w2" by (rule newCalls_append)
  moreover have "filter (\<lambda>x. fst x = Suc k) cs0 = []"
    using assms(2) by (auto simp: filter_empty_conv)
  ultimately show ?thesis by (simp add: rowCalls_def)
qed

lemma setUpCalendar_Ok:
  assumes "setUpCalendar values w = Ok u w'"
  shows "\<exists>c rows'. passCalendar w' = Some c \<and> sheetValues w' = values\<lparr>body := rows'\<rparr>
     \<and> length rows' = length (body values) \<and> idgen w' = idgen w
     \<and> (passCalendar w \<noteq> None \<longrightarrow> passCalendar w = Some c)
     \<and> calls w' = calls w @ newCalls w w'
     \<and> (\<forall>x\<in>set (newCalls w w').
           (fst x = 0 \<and> passCalendar w = None \<and> snd x = CreateCalendar ''LUMICKS Academy Calendar'')
           \<or> (1 \<le> fst x \<and> fst x \<le> length (body values)))
     \<and> (\<forall>k<length (body values).
         has w' c (sEventId (rows' ! k))
         \<and> (updatedRow c (Suc k) (body values ! k) (rows' ! k) w w'
             \<or> createdRow c (Suc k) (body values ! k) (rows' ! k) w w')
         \<and> (resolves w (sEventId (body values ! k))
              \<longrightarrow> updatedRow c (Suc k) (body values ! k) (rows' ! k) w w')
         \<and> (\<not> resolves w (sEventId (body values ! k)) \<and> sEventId (body values ! k) \<notin> toCome w
              \<longrightarrow> createdRow c (Suc k) (body values ! k) (rows' ! k) w w'))"
proof -
  from assms obtain cal c w1 rows' w2 where
    op: "openCalendarOfPass w = Ok (cal, c) w1"
    and loop: "syncRows cal c 1 (body values) w1 = Ok rows' w2"
    and w': "w' = w2\<lparr>sheetValues := values\<lparr>body := rows'\<rparr>\<rparr>"
    by (auto simp: setUpCalendar_def dest!: bind_OkD)
  note O = openCalendarOfPass_Ok [OF op]
  from O have cal: "cal = Some c" by simp
  note L = syncRows_Ok [OF loop [unfolded cal]]
  from L have Lapp: "calls w2 = calls w1 @ newCalls w1 w2"
    and Llen: "length rows' = length (body values)"
    and Lfr: "frame w1 w2"
    and Ldm: "dom (calendars w2) = dom (calendars w1)"
    and Lkeep: "\<forall>e. has w1 c e \<longrightarrow> has w2 c e"
    and Ltags: "\<forall>x\<in>set (newCalls w1 w2). 1 \<le> fst x \<and> fst x < 1 + length (body values)"
    by blast+
  from O obtain cs0 where cs0: "calls w1 = calls w @ cs0"
    and cs0c: "\<forall>x\<in>set cs0. x = (0, CreateCalendar ''LUMICKS Academy Calendar'')"
    and cs0e: "passCalendar w \<noteq> None \<longrightarrow> cs0 = []"
    by blast
  from cs0c have cs0t: "\<forall>x\<in>set cs0. fst x = 0" by auto
  have rc: "rowCalls (Suc k) w w' = rowCalls (1 + k) w1 w2" for k
    using rowCalls_pass [OF cs0 cs0t Lapp, of w' k] w' by simp
  have hasw': "has w' c e = has w2 c e" for e
    by (simp add: has_def w')
  have u: "updatedRow c (1 + k) a b w1 w2 = updatedRow c (Suc k) a b w w'" for k a b
    using rc [of k] by (simp add: updatedRow_def)
  have cr: "createdRow c (1 + k) a b w1 w2 = createdRow c (Suc k) a b w w'" for k a b
    using rc [of k] by (simp add: createdRow_def)
  have idg: "idgen w1 = idgen w" using O by simp
  have sub: "toCome w1 \<subseteq> toCome w"
    using idg O by (intro toCome_later) simp_all
  have pc: "passCalendar w' = Some c"
  proof -
    have "properties w2 = properties w1" using Lfr by (simp add: frame_def)
    moreover have "has w1 c e \<longrightarrow> has w2 c e" for e using Lkeep by blast
    moreover have "passCalendar w1 = Some c" using O by simp
    moreover have "calendars w2 c \<noteq> None"
    proof -
      have "dom (calendars w2) = dom (calendars w1)" by (rule Ldm)
      moreover have "c \<in> dom (calendars w1)"
        using O by (auto simp: passCalendar_def split: option.splits if_splits)
      ultimately show ?thesis by auto
    qed
    ultimately show ?thesis
      by (auto simp: passCalendar_def w' split: option.splits if_splits)
  qed
  have all: "calls w' = calls w @ (cs0 @ newCalls w1 w2)"
    unfolding w' by (simp, subst Lapp) (simp add: cs0)
  then have nc: "newCalls w w' = cs0 @ newCalls w1 w2" by (rule newCalls_append)
  have app: "calls w' = calls w @ newCalls w w'"
    unfolding nc by (rule all)
  have tags: "\<forall>x\<in>set (newCalls w w').
           (fst x = 0 \<and> passCalendar w = None \<and> snd x = CreateCalendar ''LUMICKS Academy Calendar'')
           \<or> (1 \<le> fst x \<and> fst x \<le> length (body values))"
  proof
    fix x assume "x \<in> set (newCalls w w')"
    then consider "x \<in> set cs0" | "x \<in> set (newCalls w1 w2)" by (auto simp: nc)
    then show "(fst x = 0 \<and> passCalendar w = None \<and> snd x = CreateCalendar ''LUMICKS Academy Calendar'')
           \<or> (1 \<le> fst x \<and> fst x \<le> length (body values))"
    proof cases
      case 1
      then have "cs0 \<noteq> []" by auto
      with cs0e have "passCalendar w = None" by blast
      with 1 cs0c show ?thesis by auto
    next
      case 2
      with Ltags show ?thesis by auto
    qed
  qed
  have per: "has w' c (sEventId (rows' ! k))
         \<and> (updatedRow c (Suc k) (body values ! k) (rows' ! k) w w'
             \<or> createdRow c (Suc k) (body values ! k) (rows' ! k) w w')
         \<and> (resolves w (sEventId (body values ! k))
              \<longrightarrow> updatedRow c (Suc k) (body values ! k) (rows' ! k) w w')
         \<and> (\<not> resolves w (sEventId (body values ! k)) \<and> sEventId (body values ! k) \<notin> toCome w
              \<longrightarrow> createdRow c (Suc k) (body values ! k) (rows' ! k) w w')"
    if k: "k < length (body values)" for k
  proof -
    from L k have "has w2 c (sEventId (rows' ! k))
         \<and> (updatedRow c (1 + k) (body values ! k) (rows' ! k) w1 w2 \<or> createdRow c (1 + k) (body values ! k) (rows' ! k) w1 w2)
         \<and> (has w1 c (sEventId (body values ! k)) \<longrightarrow> updatedRow c (1 + k) (body values ! k) (rows' ! k) w1 w2)
         \<and> (\<not> has w1 c (sEventId (body values ! k)) \<and> sEventId (body values ! k) \<notin> toCome w1
              \<longrightarrow> createdRow c (1 + k) (body values ! k) (rows' ! k) w1 w2)"
      by blast
    moreover have "sEventId (body values ! k) \<notin> toCome w \<longrightarrow> sEventId (body values ! k) \<notin> toCome w1"
      using sub by blast
    moreover have "has w1 c (sEventId (body values ! k)) = resolves w (sEventId (body values ! k))"
      using O by simp
    ultimately show ?thesis
      unfolding u cr hasw' by auto
  qed
  from per have per': "\<forall>k<length (body values).
         has w' c (sEventId (rows' ! k))
         \<and> (updatedRow c (Suc k) (body values ! k) (rows' ! k) w w'
             \<or> createdRow c (Suc k) (body values ! k) (rows' ! k) w w')
         \<and> (resolves w (sEventId (body values ! k))
              \<longrightarrow> updatedRow c (Suc k) (body values ! k) (rows' ! k) w w')
         \<and> (\<not> resolves w (sEventId (body values ! k)) \<and> sEventId (body values ! k) \<notin> toCome w
              \<longrightarrow> createdRow c (Suc k) (body values ! k) (rows' ! k) w w')"
    by (intro allI impI)
  have sv: "sheetValues w' = values\<lparr>body := rows'\<rparr>" by (simp add: w')
  have ln: "length rows' = length (body values)" by (rule Llen)
  have ig: "idgen w' = idgen w" using Lfr idg by (simp add: w' frame_def)
  have pw: "passCalendar w \<noteq> None \<longrightarrow> passCalendar w = Some c" using O by simp
  show ?thesis
    apply (rule exI [of _ c])
    apply (rule exI [of _ rows'])
    apply (intro conjI)
    subgoal by (rule pc)
    subgoal by (rule sv)
    subgoal by (rule ln)
    subgoal by (rule ig)
    subgoal by (rule pw)
    subgoal by (rule app)
    subgoal by (rule tags)
    subgoal by (rule per')
    done
qed

lemma tick_up: "outage w = None \<Longrightarrow> tick w = Ok () w"
  by (simp add: tick_def)

lemma freshIds_next:
  assumes "freshIds w" "n \<ge> Suc (issued w)"
  shows "idgen w n \<noteq> idgen w (issued w)"
proof -
  from assms have "inj_on (idgen w) {issued w ..}" by (simp add: freshIds_def)
  moreover have "n \<in> {issued w ..}" "issued w \<in> {issued w ..}" "n \<noteq> issued w"
    using assms(2) by auto
  ultimately show ?thesis by (auto dest: inj_onD)
qed

lemma freshIds_event:
  "freshIds w \<Longrightarrow> issued w \<le> n \<Longrightarrow> calendars w c = Some evs \<Longrightarrow> evs (idgen w n) = None"
  by (simp add: freshIds_def)

lemma freshIds_calendar:
  "freshIds w \<Longrightarrow> issued w \<le> n \<Longrightarrow> calendars w (idgen w n) = None"
  by (simp add: freshIds_def)

lemma inj_on_later: "inj_on f {n ..} \<Longrightarrow> inj_on f {Suc n ..}"
  by (rule inj_on_subset) auto

lemma syncRow_up_update:
  assumes up: "ready w" and cal: "calendars w c = Some evs" and ev: "evs (sEventId s) = Some ev"
  shows "\<exists>w'. syncRow (Some c) c i s w = Ok s w' \<and> ready w' \<and> calendars w' c \<noteq> None"
proof -
  from up have o: "outage w = None" and f: "freshIds w" by (simp_all add: ready_def)
  have ne: "idgen w n \<noteq> sEventId s" if "n \<ge> issued w" for n
    using freshIds_event [OF f that cal] ev by auto
  have nc: "idgen w n \<noteq> c" if "n \<ge> issued w" for n
    using freshIds_calendar [OF f that] cal by auto
  show ?thesis
    using o cal ev f ne nc
    by (auto simp: syncRow_def Let_def getEventById_def setTitle_def setTime_def setLocation_def
        setGuestsCanSeeGuests_def updateEvent_def tick_up ready_def freshIds_def)
qed

lemma syncRow_up_create:
  assumes up: "ready w" and cal: "calendars w c = Some evs" and ev: "evs (sEventId s) = None"
  shows "\<exists>s' w'. syncRow (Some c) c i s w = Ok s' w' \<and> ready w' \<and> calendars w' c \<noteq> None"
proof -
  from up have o: "outage w = None" and f: "freshIds w" by (simp_all add: ready_def)
  have fr: "evs (idgen w (issued w)) = None"
    using freshIds_event [OF f _ cal] by simp
  have nc: "idgen w n \<noteq> c" if "n \<ge> issued w" for n
    using freshIds_calendar [OF f that] cal by auto
  have nx: "idgen w n \<noteq> idgen w (issued w)" if "n \<ge> Suc (issued w)" for n
    using f that by (rule freshIds_next)
  have inj: "inj_on (idgen w) {Suc (issued w) ..}"
    using f by (auto simp: freshIds_def intro: inj_on_later)
  have old: "calendars w (idgen w n) = None \<and> (\<forall>c evs. calendars w c = Some evs \<longrightarrow> evs (idgen w n) = None)"
    if "n \<ge> Suc (issued w)" for n
    using f that by (auto simp: freshIds_def)
  show ?thesis
    using o cal ev fr nc nx inj old
    by (auto simp: syncRow_def Let_def getEventById_def getUuid_def eventsInsert_def
        setGuestsCanSeeGuests_def updateEvent_def tick_up ready_def freshIds_def)
qed

lemma syncRows_up:
  "ready w \<Longrightarrow> calendars w c \<noteq> None \<Longrightarrow>
   \<exists>rows' w'. syncRows (Some c) c i rows w = Ok rows' w' \<and> ready w' \<and> calendars w' c \<noteq> None"
proof (induction rows arbitrary: i w)
  case Nil
  then show ?case by simp
next
  case (Cons s rest)
  from Cons.prems(2) obtain evs where evs: "calendars w c = Some evs" by auto
  have "\<exists>s' w1. syncRow (Some c) c i s w = Ok s' w1 \<and> ready w1 \<and> calendars w1 c \<noteq> None"
  proof (cases "evs (sEventId s)")
    case None
    from syncRow_up_create [OF Cons.prems(1) evs None] show ?thesis .
  next
    case (Some ev)
    from syncRow_up_update [OF Cons.prems(1) evs Some] show ?thesis by blast
  qed
  then obtain s' w1 where h: "syncRow (Some c) c i s w = Ok s' w1" "ready w1" "calendars w1 c \<noteq> None"
    by blast
  from Cons.IH [OF h(2,3), of "Suc i"] obtain rows' w' where
    t: "syncRows (Some c) c (Suc i) rest w1 = Ok rows' w'" "ready w'" "calendars w' c \<noteq> None"
    by blast
  from h t show ?case by simp
qed

lemma openCalendarOfPass_up:
  assumes "ready w"
  shows "\<exists>c w'. openCalendarOfPass w = Ok (Some c, c) w' \<and> ready w' \<and> calendars w' c \<noteq> None"
proof -
  from assms have o: "outage w = None" and f: "freshIds w" by (simp_all add: ready_def)
  have fr: "calendars w (idgen w (issued w)) = None"
    using f by (auto simp: freshIds_def)
  have nx: "idgen w n \<noteq> idgen w (issued w)" if "n \<ge> Suc (issued w)" for n
    using f that by (rule freshIds_next)
  have inj: "inj_on (idgen w) {Suc (issued w) ..}"
    using f by (auto simp: freshIds_def intro: inj_on_later)
  have old: "calendars w (idgen w n) = None \<and> (\<forall>c evs. calendars w c = Some evs \<longrightarrow> evs (idgen w n) = None)"
    if "n \<ge> Suc (issued w)" for n
    using f that by (auto simp: freshIds_def)
  show ?thesis
    using o f fr nx inj old
    by (auto simp: openCalendarOfPass_def getCalendarById_def createCalendar_def Let_def tick_up
        ready_def freshIds_def split: option.splits)
qed

lemma setUpCalendar_returns:
  assumes "ready w"
  shows "returned (setUpCalendar vals w) \<and> ready (worldOf (setUpCalendar vals w))"
proof -
  from openCalendarOfPass_up [OF assms] obtain c w1 where
    a: "openCalendarOfPass w = Ok (Some c, c) w1" "ready w1" "calendars w1 c \<noteq> None" by blast
  from syncRows_up [OF a(2,3), of 1 "body vals"] obtain rows' w2 where
    b: "syncRows (Some c) c 1 (body vals) w1 = Ok rows' w2" "ready w2" by blast
  from a(1) b show ?thesis by (simp add: setUpCalendar_def ready_def freshIds_def)
qed

lemma returned_unit: "returned r \<Longrightarrow> r = Ok () (worldOf r)"
  by (cases r) simp_all





lemma updateCalls_no_insert: "x \<in> set (updateCalls c s) \<Longrightarrow> \<not> isInsert x"
  by (auto simp: updateCalls_def)

lemma rowCalls_member: "x \<in> set (newCalls w w') \<Longrightarrow> snd x \<in> set (rowCalls (fst x) w w')"
  by (auto simp: rowCalls_def)

text \<open>
  C3 (as amended). When a pass returns and a second pass, started where the first one ended,
  returns too, the second pass sends no insert and leaves the rows as the first pass wrote
  them; for every row it sends the four setters with the title, the times and the location
  of the row. The first pass sent the same four requests for that row when its identifier
  resolved, and otherwise the insert with the payload of the row, which returned the
  identifier that the second pass uses.
\<close>

theorem second_pass_only_updates:
  assumes "returned (calendarPass w)"
    and "returned (calendarPass (firstPass w))"
  shows "filter isInsert (map snd (newCalls (firstPass w) (secondPass w))) = []
     \<and> body (sheetValues (secondPass w)) = body (sheetValues (firstPass w))
     \<and> (\<forall>k<length (body (sheetValues w)).
           \<exists>c. passCalendar (firstPass w) = Some c
             \<and> rowCalls (Suc k) (firstPass w) (secondPass w) =
                 updateCalls c ((body (sheetValues w) ! k)\<lparr>sEventId := sEventId (body (sheetValues (firstPass w)) ! k)\<rparr>)
             \<and> (rowCalls (Suc k) w (firstPass w) =
                   updateCalls c ((body (sheetValues w) ! k)\<lparr>sEventId := sEventId (body (sheetValues (firstPass w)) ! k)\<rparr>)
                 \<or> (\<exists>uuid. rowCalls (Suc k) w (firstPass w) =
                      createCalls c (body (sheetValues w) ! k) uuid (sEventId (body (sheetValues (firstPass w)) ! k)))))"
proof -
  let ?w1 = "firstPass w" and ?w2 = "secondPass w"
  let ?rows = "body (sheetValues w)"
  have run1: "setUpCalendar (sheetValues w) w = Ok () ?w1"
    using assms(1) returned_unit by (simp add: firstPass_def calendarPass_def)
  have run2: "setUpCalendar (sheetValues ?w1) ?w1 = Ok () ?w2"
    using assms(2) returned_unit by (simp add: secondPass_def calendarPass_def)
  from setUpCalendar_Ok [OF run1] obtain c rows' where
    sv1: "sheetValues ?w1 = (sheetValues w)\<lparr>body := rows'\<rparr>"
    and len1: "length rows' = length ?rows"
    and pc1: "passCalendar ?w1 = Some c"
    and per1: "\<forall>k<length ?rows. has ?w1 c (sEventId (rows' ! k))
         \<and> (updatedRow c (Suc k) (?rows ! k) (rows' ! k) w ?w1
             \<or> createdRow c (Suc k) (?rows ! k) (rows' ! k) w ?w1)"
    by blast
  have b1: "body (sheetValues ?w1) = rows'" by (simp add: sv1)
  from setUpCalendar_Ok [OF run2] obtain c2 rows'' where
    sv2: "sheetValues ?w2 = (sheetValues ?w1)\<lparr>body := rows''\<rparr>"
    and len2: "length rows'' = length rows'"
    and pc2: "passCalendar ?w1 \<noteq> None \<longrightarrow> passCalendar ?w1 = Some c2"
    and tags2: "\<forall>x\<in>set (newCalls ?w1 ?w2).
           (fst x = 0 \<and> passCalendar ?w1 = None \<and> snd x = CreateCalendar ''LUMICKS Academy Calendar'')
           \<or> (1 \<le> fst x \<and> fst x \<le> length rows')"
    and per2: "\<forall>k<length rows'. resolves ?w1 (sEventId (rows' ! k))
              \<longrightarrow> updatedRow c2 (Suc k) (rows' ! k) (rows'' ! k) ?w1 ?w2"
    unfolding b1 by blast
  from pc1 pc2 have c2: "c2 = c" by simp
  have res: "resolves ?w1 (sEventId (rows' ! k))" if "k < length ?rows" for k
    using per1 that pc1 by (simp add: resolves_def)
  have upd: "rows'' ! k = rows' ! k \<and> rowCalls (Suc k) ?w1 ?w2 = updateCalls c (rows' ! k)"
    if "k < length ?rows" for k
    using per2 res [OF that] that len1 by (simp add: updatedRow_def c2)
  have same: "rows'' = rows'"
    using len2 upd len1 by (intro nth_equalityI) simp_all
  have noins: "\<not> isInsert (snd x)" if x: "x \<in> set (newCalls ?w1 ?w2)" for x
  proof -
    from tags2 x pc1 have t: "1 \<le> fst x" "fst x \<le> length rows'" by auto
    then obtain k where k: "fst x = Suc k" "k < length ?rows"
      using len1 by (cases "fst x") auto
    from rowCalls_member [OF x] k upd [of k] have "snd x \<in> set (updateCalls c (rows' ! k))"
      by simp
    then show ?thesis by (rule updateCalls_no_insert)
  qed
  have A: "filter isInsert (map snd (newCalls ?w1 ?w2)) = []"
    using noins by (auto simp: filter_empty_conv)
  have B: "body (sheetValues ?w2) = body (sheetValues ?w1)"
    by (simp add: sv2 same b1)
  have C: "\<exists>c. passCalendar ?w1 = Some c
             \<and> rowCalls (Suc k) ?w1 ?w2 =
                 updateCalls c ((?rows ! k)\<lparr>sEventId := sEventId (body (sheetValues ?w1) ! k)\<rparr>)
             \<and> (rowCalls (Suc k) w ?w1 =
                   updateCalls c ((?rows ! k)\<lparr>sEventId := sEventId (body (sheetValues ?w1) ! k)\<rparr>)
                 \<or> (\<exists>uuid. rowCalls (Suc k) w ?w1 =
                      createCalls c (?rows ! k) uuid (sEventId (body (sheetValues ?w1) ! k))))"
    if k: "k < length ?rows" for k
  proof -
    from per1 k consider "updatedRow c (Suc k) (?rows ! k) (rows' ! k) w ?w1"
      | "createdRow c (Suc k) (?rows ! k) (rows' ! k) w ?w1" by blast
    then show ?thesis
    proof cases
      case 1
      then have "rows' ! k = ?rows ! k" "rowCalls (Suc k) w ?w1 = updateCalls c (?rows ! k)"
        by (simp_all add: updatedRow_def)
      with upd [OF k] pc1 show ?thesis by (simp add: b1)
    next
      case 2
      then obtain uuid where "rows' ! k = (?rows ! k)\<lparr>sEventId := sEventId (rows' ! k)\<rparr>"
        "rowCalls (Suc k) w ?w1 = createCalls c (?rows ! k) uuid (sEventId (rows' ! k))"
        by (auto simp: createdRow_def)
      with upd [OF k] pc1 show ?thesis by (auto simp: b1)
    qed
  qed
  from A B C show ?thesis by blast
qed

theorem second_pass_only_updates_witness:
  "returned (calendarPass workshop)
   \<and> returned (calendarPass (firstPass workshop))
   \<and> filter isInsert (map snd (newCalls (firstPass workshop) (secondPass workshop))) = []
   \<and> body (sheetValues (secondPass workshop)) = body (sheetValues (firstPass workshop))
   \<and> rowCalls 1 workshop (firstPass workshop)
       = createCalls ''e'' introSession ''u'' ''ee''
   \<and> rowCalls 1 (firstPass workshop) (secondPass workshop)
       = updateCalls ''e'' (introSession\<lparr>sEventId := ''ee''\<rparr>)"
proof -
  have h1: "returned (calendarPass workshop)" by code_simp
  have h2: "returned (calendarPass (firstPass workshop))" by code_simp
  have r1: "rowCalls 1 workshop (firstPass workshop) = createCalls ''e'' introSession ''u'' ''ee''"
    by code_simp
  have r2: "rowCalls 1 (firstPass workshop) (secondPass workshop)
       = updateCalls ''e'' (introSession\<lparr>sEventId := ''ee''\<rparr>)"
    by code_simp
  from second_pass_only_updates [OF h1 h2] h1 h2 r1 r2 show ?thesis
    by blast
qed

text \<open>
  C3 as stated fails: the updates of the second pass are not those of the first when the
  first pass created an event. For the workshop the first pass sends no update at all (it
  inserts), and the second pass sends three.
\<close>

theorem second_pass_updates_differ:
  "returned (calendarPass workshop)
   \<and> returned (calendarPass (firstPass workshop))
   \<and> updatesOf workshop (firstPass workshop) = []
   \<and> updatesOf (firstPass workshop) (secondPass workshop) =
       [SetTitle ''e'' ''ee'' ''Intro'',
        SetTime ''e'' ''ee'' (sessionDay\<lparr>dHours := 9\<rparr>) (sessionDay\<lparr>dHours := 10\<rparr>),
        SetLocation ''e'' ''ee'' ''Room A'']
   \<and> updatesOf (firstPass workshop) (secondPass workshop) \<noteq> updatesOf workshop (firstPass workshop)"
  by code_simp

subsection \<open>Passes that throw, and what no pass does\<close>

lemma advances_refl: "advances w w"
  by (simp add: advances_def)

lemma advances_trans: "advances w w1 \<Longrightarrow> advances w1 w2 \<Longrightarrow> advances w w2"
  by (auto simp: advances_def)

lemma bind_advances:
  assumes "advances w (worldOf m)"
    and "\<And>x w1. m = Ok x w1 \<Longrightarrow> advances w1 (worldOf (f x w1))"
  shows "advances w (worldOf (bind m f))"
proof (cases m)
  case (Ok x w1)
  with assms(1) have "advances w w1" by simp
  moreover from assms(2) [OF Ok] have "advances w1 (worldOf (f x w1))" .
  ultimately show ?thesis using Ok by (simp add: advances_trans)
next
  case (Thrown e w1)
  with assms(1) show ?thesis by simp
qed

lemma tick_advances: "advances w (worldOf (tick w))"
  by (auto simp: tick_def advances_def has_def split: option.splits nat.splits)

lemma after_tick:
  assumes "\<And>w1. advances w1 (worldOf (f () w1))"
  shows "advances w (worldOf (bind (tick w) f))"
  by (rule bind_advances [OF tick_advances]) (simp add: assms)

lemma getCalendarById_advances: "advances w (worldOf (getCalendarById c w))"
  unfolding getCalendarById_def by (rule after_tick) (simp add: advances_refl)

lemma createCalendar_advances: "advances w (worldOf (createCalendar name w))"
  unfolding createCalendar_def
  by (rule after_tick) (auto simp: advances_def has_def Let_def)

lemma getEventById_advances: "advances w (worldOf (getEventById cal e w))"
proof (cases cal)
  case None
  then show ?thesis by (simp add: getEventById_def advances_refl)
next
  case (Some c)
  show ?thesis
    unfolding getEventById_def Some option.case
    by (rule after_tick) (simp add: advances_refl split: option.splits)
qed

lemma getUuid_advances: "advances w (worldOf (getUuid w))"
  by (simp add: getUuid_def advances_def has_def)

lemma eventsInsert_advances: "advances w (worldOf (eventsInsert i p c w))"
  unfolding eventsInsert_def
  by (rule after_tick) (auto simp: advances_def has_def Let_def split: option.splits)

lemma updateEvent_advances: "\<not> isDelete call \<Longrightarrow> advances w (worldOf (updateEvent i c e f call w))"
  unfolding updateEvent_def
  by (rule after_tick) (auto simp: advances_def has_def split: option.splits)

lemma syncRow_advances: "advances w (worldOf (syncRow cal c i s w))"
  unfolding syncRow_def Let_def
  apply (rule bind_advances [OF getEventById_advances])
  apply (rule bind_advances)
  subgoal for event w1
    apply (cases event)
    subgoal
      apply (simp only: option.case)
      apply (rule bind_advances [OF getUuid_advances])
      apply (rule bind_advances [OF eventsInsert_advances])
      apply (rule getEventById_advances)
      done
    subgoal for e
      apply (simp only: option.case setTitle_def setTime_def setLocation_def)
      apply (rule bind_advances [OF updateEvent_advances], simp)
      apply (rule bind_advances [OF updateEvent_advances], simp)
      apply (rule bind_advances [OF updateEvent_advances], simp)
      apply (simp add: advances_refl)
      done
    done
  subgoal for event w1 event' w2
    apply (cases event')
    subgoal by (simp add: advances_refl)
    subgoal for e
      apply (simp only: option.case setGuestsCanSeeGuests_def)
      apply (rule bind_advances [OF updateEvent_advances], simp)
      apply (simp add: advances_refl)
      done
    done
  done

lemma syncRows_advances: "advances w (worldOf (syncRows cal c i rows w))"
proof (induction rows arbitrary: i w)
  case Nil
  show ?case by (simp add: advances_refl)
next
  case (Cons s rest)
  show ?case
    unfolding syncRows.simps
    apply (rule bind_advances [OF syncRow_advances])
    apply (rule bind_advances [OF Cons.IH])
    apply (simp add: advances_refl)
    done
qed

lemma openCalendarOfPass_advances: "advances w (worldOf (openCalendarOfPass w))"
  unfolding openCalendarOfPass_def
  apply (rule bind_advances)
  subgoal by (cases "properties w ''calendarId''") (simp_all add: advances_refl getCalendarById_advances)
  subgoal for found w1
    apply (cases found)
    subgoal
      apply (simp only: option.case)
      apply (rule bind_advances [OF createCalendar_advances])
      apply (simp add: advances_def has_def)
      done
    subgoal for c
      apply (simp only: option.case)
      apply (rule bind_advances [OF getCalendarById_advances])
      apply (simp add: advances_refl)
      done
    done
  done

lemma bind_sameProperties:
  assumes "sameProperties w (worldOf m)"
    and "\<And>x w1. m = Ok x w1 \<Longrightarrow> sameProperties w1 (worldOf (f x w1))"
  shows "sameProperties w (worldOf (bind m f))"
proof (cases m)
  case (Ok x w1)
  with assms(1) have "sameProperties w w1" by simp
  moreover from assms(2) [OF Ok] have "sameProperties w1 (worldOf (f x w1))" .
  ultimately show ?thesis using Ok by (simp add: sameProperties_def)
next
  case (Thrown e w1)
  with assms(1) show ?thesis by simp
qed

lemma tick_sameProperties: "sameProperties w (worldOf (tick w))"
  by (auto simp: tick_def sameProperties_def split: option.splits nat.splits)

lemma after_tick_sameProperties:
  assumes "\<And>w1. sameProperties w1 (worldOf (f () w1))"
  shows "sameProperties w (worldOf (bind (tick w) f))"
  by (rule bind_sameProperties [OF tick_sameProperties]) (simp add: assms)

lemma getCalendarById_sameProperties: "sameProperties w (worldOf (getCalendarById c w))"
  unfolding getCalendarById_def by (rule after_tick_sameProperties) (simp add: sameProperties_def)

lemma getEventById_sameProperties: "sameProperties w (worldOf (getEventById cal e w))"
proof (cases cal)
  case None
  then show ?thesis by (simp add: getEventById_def sameProperties_def)
next
  case (Some c)
  show ?thesis
    unfolding getEventById_def Some option.case
    by (rule after_tick_sameProperties) (simp add: sameProperties_def split: option.splits)
qed

lemma getUuid_sameProperties: "sameProperties w (worldOf (getUuid w))"
  by (simp add: getUuid_def sameProperties_def)

lemma eventsInsert_sameProperties: "sameProperties w (worldOf (eventsInsert i p c w))"
  unfolding eventsInsert_def
  by (rule after_tick_sameProperties) (auto simp: sameProperties_def Let_def split: option.splits)

lemma updateEvent_sameProperties: "sameProperties w (worldOf (updateEvent i c e f call w))"
  unfolding updateEvent_def
  by (rule after_tick_sameProperties) (auto simp: sameProperties_def split: option.splits)

lemma syncRow_sameProperties: "sameProperties w (worldOf (syncRow cal c i s w))"
  unfolding syncRow_def Let_def
  apply (rule bind_sameProperties [OF getEventById_sameProperties])
  apply (rule bind_sameProperties)
  subgoal for event w1
    apply (cases event)
    subgoal
      apply (simp only: option.case)
      apply (rule bind_sameProperties [OF getUuid_sameProperties])
      apply (rule bind_sameProperties [OF eventsInsert_sameProperties])
      apply (rule getEventById_sameProperties)
      done
    subgoal for e
      apply (simp only: option.case setTitle_def setTime_def setLocation_def)
      apply (rule bind_sameProperties [OF updateEvent_sameProperties])
      apply (rule bind_sameProperties [OF updateEvent_sameProperties])
      apply (rule bind_sameProperties [OF updateEvent_sameProperties])
      apply (simp add: sameProperties_def)
      done
    done
  subgoal for event w1 event' w2
    apply (cases event')
    subgoal by (simp add: sameProperties_def)
    subgoal for e
      apply (simp only: option.case setGuestsCanSeeGuests_def)
      apply (rule bind_sameProperties [OF updateEvent_sameProperties])
      apply (simp add: sameProperties_def)
      done
    done
  done

lemma syncRows_sameProperties: "sameProperties w (worldOf (syncRows cal c i rows w))"
proof (induction rows arbitrary: i w)
  case Nil
  show ?case by (simp add: sameProperties_def)
next
  case (Cons s rest)
  show ?case
    unfolding syncRows.simps
    apply (rule bind_sameProperties [OF syncRow_sameProperties])
    apply (rule bind_sameProperties [OF Cons.IH])
    apply (simp add: sameProperties_def)
    done
qed

lemma getCalendarById_found:
  "getCalendarById c w = Ok found w1 \<Longrightarrow> calendars w c \<noteq> None \<Longrightarrow> found = Some c"
  by (auto dest: getCalendarById_OkD)

lemma openCalendarOfPass_sameProperties:
  assumes "passCalendar w = Some c"
  shows "sameProperties w (worldOf (openCalendarOfPass w))"
proof -
  from assms have p: "properties w ''calendarId'' = Some c" and k: "calendars w c \<noteq> None"
    by (auto simp: passCalendar_def split: option.splits if_splits)
  have "openCalendarOfPass w =
      bind (getCalendarById c w) (\<lambda>found w.
        case found of
          None \<Rightarrow>
            bind (createCalendar ''LUMICKS Academy Calendar'' w) (\<lambda>calId w.
            Ok (Some calId, calId) (w\<lparr>properties := (properties w)(''calendarId'' \<mapsto> calId)\<rparr>))
        | Some calId \<Rightarrow>
            bind (getCalendarById calId w) (\<lambda>cal w. Ok (cal, calId) w))"
    by (simp add: openCalendarOfPass_def p)
  also have "sameProperties w (worldOf \<dots>)"
  proof (rule bind_sameProperties [OF getCalendarById_sameProperties])
    fix found w1
    assume "getCalendarById c w = Ok found w1"
    from getCalendarById_found [OF this k] have found: "found = Some c" .
    have "sameProperties w1 (worldOf (bind (getCalendarById c w1) (\<lambda>cal w. Ok (cal, c) w)))"
      by (rule bind_sameProperties [OF getCalendarById_sameProperties]) (simp add: sameProperties_def)
    with found show "sameProperties w1 (worldOf (case found of
          None \<Rightarrow>
            bind (createCalendar ''LUMICKS Academy Calendar'' w1) (\<lambda>calId w.
            Ok (Some calId, calId) (w\<lparr>properties := (properties w)(''calendarId'' \<mapsto> calId)\<rparr>))
        | Some calId \<Rightarrow>
            bind (getCalendarById calId w1) (\<lambda>cal w. Ok (cal, calId) w)))"
      by simp
  qed
  finally show ?thesis .
qed

lemma bind_assoc: "bind (bind m f) g = bind m (\<lambda>x w. bind (f x w) g)"
  by (cases m) simp_all

lemma setUpCalendar_core:
  "\<exists>r. setUpCalendar values w = bind r (\<lambda>rows w. Ok () (w\<lparr>sheetValues := values\<lparr>body := rows\<rparr>\<rparr>))
     \<and> advances w (worldOf r)
     \<and> (passCalendar w \<noteq> None \<longrightarrow> properties (worldOf r) = properties w)"
proof -
  let ?r = "bind (openCalendarOfPass w) (\<lambda>(cal, calId) w. syncRows cal calId 1 (body values) w)"
  have "setUpCalendar values w = bind ?r (\<lambda>rows w. Ok () (w\<lparr>sheetValues := values\<lparr>body := rows\<rparr>\<rparr>))"
    unfolding setUpCalendar_def bind_assoc
    by (rule arg_cong [where f = "bind (openCalendarOfPass w)"]) (auto simp: fun_eq_iff)
  moreover have "advances w (worldOf ?r)"
    by (rule bind_advances [OF openCalendarOfPass_advances]) (auto simp: syncRows_advances)
  moreover have "properties (worldOf ?r) = properties w" if "passCalendar w \<noteq> None"
  proof -
    from that obtain c where "passCalendar w = Some c" by auto
    then have "sameProperties w (worldOf (openCalendarOfPass w))"
      by (rule openCalendarOfPass_sameProperties)
    then have "sameProperties w (worldOf ?r)"
      by (rule bind_sameProperties) (auto simp: syncRows_sameProperties)
    then show ?thesis by (simp add: sameProperties_def)
  qed
  ultimately show ?thesis by blast
qed

text \<open>
  C4 (as amended). A pass that throws, at whichever row and for whichever reason, has written
  nothing to the sheet: the identifier cells of all rows, those before the failing row
  included, are as they were before the pass. The events that were there before the pass are
  still there, and the identifiers that resolved before the pass still resolve, so that the
  next pass updates their rows and creates nothing for them.
\<close>

theorem thrown_pass_writes_nothing:
  assumes "\<not> returned (setUpCalendar values w)"
  shows "sheetValues (worldOf (setUpCalendar values w)) = sheetValues w
     \<and> (\<forall>c e. has w c e \<longrightarrow> has (worldOf (setUpCalendar values w)) c e)
     \<and> (\<forall>e. resolves w e \<longrightarrow> resolves (worldOf (setUpCalendar values w)) e)"
proof -
  from setUpCalendar_core [of "values" w] obtain r where
    eq: "setUpCalendar values w = bind r (\<lambda>rows w. Ok () (w\<lparr>sheetValues := values\<lparr>body := rows\<rparr>\<rparr>))"
    and adv: "advances w (worldOf r)"
    and props: "passCalendar w \<noteq> None \<longrightarrow> properties (worldOf r) = properties w" by blast
  from eq assms obtain e w1 where r: "r = Thrown e w1"
    by (cases r) simp_all
  with eq have w': "worldOf (setUpCalendar values w) = w1" by simp
  from adv r have sv: "sheetValues w1 = sheetValues w"
    and keep: "\<forall>c e. has w c e \<longrightarrow> has w1 c e"
    by (simp_all add: advances_def)
  have res: "resolves w1 x" if "resolves w x" for x
  proof -
    from that obtain c where c: "passCalendar w = Some c" and h: "has w c x"
      by (auto simp: resolves_def split: option.splits)
    from c props r have p: "properties w1 = properties w" by simp
    from keep h have h1: "has w1 c x" by blast
    then have "calendars w1 c \<noteq> None" by (auto simp: has_def split: option.splits)
    with c p have "passCalendar w1 = Some c"
      by (auto simp: passCalendar_def split: option.splits if_splits)
    with h1 show ?thesis by (simp add: resolves_def)
  qed
  from sv keep res show ?thesis unfolding w' by blast
qed

text \<open>
  C5. Whatever the rows are and whether the pass returns or throws, none of the requests it
  sends is a delete request, and every event that a calendar had before the pass is still
  there after it: also the event of a row that is no longer in the sheet.
\<close>

theorem pass_never_deletes:
  "(\<forall>x\<in>set (newCalls w (worldOf (setUpCalendar values w))). \<not> isDelete (snd x))
   \<and> calls (worldOf (setUpCalendar values w)) = calls w @ newCalls w (worldOf (setUpCalendar values w))
   \<and> (\<forall>c e. has w c e \<longrightarrow> has (worldOf (setUpCalendar values w)) c e)"
proof -
  from setUpCalendar_core [of "values" w] obtain r where
    eq: "setUpCalendar values w = bind r (\<lambda>rows w. Ok () (w\<lparr>sheetValues := values\<lparr>body := rows\<rparr>\<rparr>))"
    and adv: "advances w (worldOf r)" by blast
  let ?w' = "worldOf (setUpCalendar values w)"
  have c: "calls ?w' = calls (worldOf r)" and k: "calendars ?w' = calendars (worldOf r)"
    using eq by (cases r; simp)+
  from adv obtain cs where cs: "calls (worldOf r) = calls w @ cs" "\<forall>x\<in>set cs. \<not> isDelete (snd x)"
    and keep: "\<forall>c e. has w c e \<longrightarrow> has (worldOf r) c e"
    by (auto simp: advances_def)
  have nc: "newCalls w ?w' = cs"
    using cs(1) c by (simp add: newCalls_def)
  have "\<forall>c e. has w c e \<longrightarrow> has ?w' c e"
    using keep k by (simp add: has_def)
  with nc cs c show ?thesis by simp
qed

theorem thrown_pass_writes_nothing_witness:
  "\<not> returned (setUpCalendar (sheetValues conferenceOutage) conferenceOutage)
   \<and> thrown (setUpCalendar (sheetValues conferenceOutage) conferenceOutage) = Some TransientUnavailable
   \<and> sheetValues (worldOf (setUpCalendar (sheetValues conferenceOutage) conferenceOutage))
       = sheetValues conferenceOutage"
proof -
  have h: "\<not> returned (setUpCalendar (sheetValues conferenceOutage) conferenceOutage)" by code_simp
  have t: "thrown (setUpCalendar (sheetValues conferenceOutage) conferenceOutage) = Some TransientUnavailable"
    by code_simp
  from thrown_pass_writes_nothing [OF h] h t show ?thesis by simp
qed

text \<open>
  C4 as stated fails: the identifiers of the rows before the failing one are not in the sheet
  after the pass has thrown, because the rows are written once, after the loop. When the insert
  for the second session of the conference fails, the event of the first session has been
  made under the identifier \<open>ee\<close>, the identifier cell of the first session is still empty, and
  the next pass makes a second event, \<open>eee\<close>, for the first session.
\<close>

theorem failed_pass_commits_no_identifier:
  "thrown (calendarPass conferenceOutage) = Some TransientUnavailable
   \<and> rowCalls 1 conferenceOutage (firstPass conferenceOutage) = createCalls ''e'' introSession ''u'' ''ee''
   \<and> rowCalls 2 conferenceOutage (firstPass conferenceOutage) = []
   \<and> has (firstPass conferenceOutage) ''e'' ''ee''
   \<and> sEventId (body (sheetValues (firstPass conferenceOutage)) ! 0) = []
   \<and> returned (calendarPass conferenceRecovered)
   \<and> rowCalls 1 conferenceRecovered (firstPass conferenceRecovered)
       = createCalls ''e'' introSession ''uuu'' ''eee''"
proof -
  have a: "thrown (calendarPass conferenceOutage) = Some TransientUnavailable"
    by code_simp
  have b: "rowCalls 1 conferenceOutage (firstPass conferenceOutage) = createCalls ''e'' introSession ''u'' ''ee''"
    by code_simp
  have c: "rowCalls 2 conferenceOutage (firstPass conferenceOutage) = []"
    by code_simp
  have d: "has (firstPass conferenceOutage) ''e'' ''ee''"
    by code_simp
  have e: "sEventId (body (sheetValues (firstPass conferenceOutage)) ! 0) = []"
    by code_simp
  have f: "returned (calendarPass conferenceRecovered)"
    by code_simp
  have g: "rowCalls 1 conferenceRecovered (firstPass conferenceRecovered)
       = createCalls ''e'' introSession ''uuu'' ''eee''"
    by code_simp
  from a b c d e f g show ?thesis by blast
qed

theorem pass_never_deletes_witness:
  "has (firstPass workshop) ''e'' ''ee''
   \<and> has (worldOf (setUpCalendar ((sheetValues (firstPass workshop))\<lparr>body := []\<rparr>) (firstPass workshop))) ''e'' ''ee''
   \<and> filter (\<lambda>x. isDelete (snd x))
        (newCalls (firstPass workshop)
           (worldOf (setUpCalendar ((sheetValues (firstPass workshop))\<lparr>body := []\<rparr>) (firstPass workshop)))) = []"
proof -
  have h: "has (firstPass workshop) ''e'' ''ee''" by code_simp
  from pass_never_deletes [of "firstPass workshop" "(sheetValues (firstPass workshop))\<lparr>body := []\<rparr>"] h
  show ?thesis by (simp add: filter_empty_conv)
qed

subsection \<open>The grouping\<close>

lemma firstSeen_snoc:
  "firstSeen (xs @ [x]) = (if x \<in> set xs then firstSeen xs else firstSeen xs @ [x])"
  by (simp add: firstSeen_def)

lemma set_firstSeen [simp]: "set (firstSeen xs) = set xs"
  by (simp add: firstSeen_def)

lemma distinct_firstSeen [simp]: "distinct (firstSeen xs)"
  by (simp add: firstSeen_def)

lemma obj_get_map:
  "obj_get (map (\<lambda>k. (k, g k)) ks) k = (if k \<in> set ks then Some (g k) else None)"
  by (induction ks) auto

lemma obj_set_map_new:
  "k \<notin> set ks \<Longrightarrow> obj_set (map (\<lambda>k. (k, g k)) ks) k v = map (\<lambda>k. (k, g k)) ks @ [(k, v)]"
  by (induction ks) auto

lemma obj_set_map_old:
  "k \<in> set ks \<Longrightarrow> distinct ks \<Longrightarrow>
   obj_set (map (\<lambda>k. (k, g k)) ks) k v = map (\<lambda>k'. (k', if k' = k then v else g k')) ks"
  by (induction ks) auto

lemma obj_get_set: "obj_get (obj_set ob k v) k' = (if k' = k then Some v else obj_get ob k')"
  by (induction ob) auto

lemma obj_set_set: "obj_set (obj_set ob k v) k v' = obj_set ob k v'"
  by (induction ob) auto

lemma addToSchedule_eq:
  "addToSchedule sched (ttl, d, t) =
     obj_set sched d
       (obj_set (case obj_get sched d of None \<Rightarrow> [] | Some x \<Rightarrow> x) t
          ((case obj_get (case obj_get sched d of None \<Rightarrow> [] | Some x \<Rightarrow> x) t of None \<Rightarrow> [] | Some ts \<Rightarrow> ts) @ [ttl]))"
  by (auto simp: addToSchedule_def Let_def obj_get_set obj_set_set split: option.splits)

lemma titlesAt_snoc:
  "titlesAt (rows @ [(ttl, d, t)]) d' t' =
     (if d' = d \<and> t' = t then titlesAt rows d' t' @ [ttl] else titlesAt rows d' t')"
  by (auto simp: titlesAt_def)

lemma timesOn_snoc:
  "timesOn (rows @ [(ttl, d, t)]) d' =
     (if d' = d \<and> t \<notin> set (timesOn rows d) then timesOn rows d' @ [t] else timesOn rows d')"
  by (auto simp: timesOn_def firstSeen_snoc)

lemma titlesAt_empty: "t \<notin> set (timesOn rows d) \<Longrightarrow> titlesAt rows d t = []"
  by (auto simp: titlesAt_def timesOn_def filter_empty_conv image_iff)

lemma timesOn_empty: "d \<notin> (\<lambda>r. fst (snd r)) ` set rows \<Longrightarrow> timesOn rows d = []"
  by (auto simp: timesOn_def firstSeen_def filter_empty_conv image_iff)

lemma distinct_timesOn: "distinct (timesOn rows d)"
  by (simp add: timesOn_def)

lemma slotsOn_absent: "d \<notin> (\<lambda>r. fst (snd r)) ` set rows \<Longrightarrow> slotsOn rows d = []"
  by (simp add: slotsOn_def timesOn_empty)

lemma slotsOn_snoc:
  "slotsOn (rows @ [(ttl, d, t)]) d' =
     (if d' = d
      then obj_set (slotsOn rows d) t
             ((case obj_get (slotsOn rows d) t of None \<Rightarrow> [] | Some ts \<Rightarrow> ts) @ [ttl])
      else slotsOn rows d')"
proof (cases "d' = d")
  case False
  then show ?thesis by (simp add: slotsOn_def titlesAt_snoc timesOn_snoc)
next
  case True
  show ?thesis
  proof (cases "t \<in> set (timesOn rows d)")
    case True
    with \<open>d' = d\<close> show ?thesis
      by (simp add: slotsOn_def titlesAt_snoc timesOn_snoc obj_get_map obj_set_map_old distinct_timesOn)
  next
    case False
    with \<open>d' = d\<close> show ?thesis
      by (auto simp: slotsOn_def titlesAt_snoc timesOn_snoc obj_get_map obj_set_map_new
          titlesAt_empty)
  qed
qed

lemma addToSchedule_groupsByDay:
  "addToSchedule (groupsByDay rows) (ttl, d, t) = groupsByDay (rows @ [(ttl, d, t)])"
proof -
  let ?days = "firstSeen (map (\<lambda>r. fst (snd r)) rows)"
  let ?X = "slotsOn (rows @ [(ttl, d, t)]) d"
  have get: "(case obj_get (groupsByDay rows) d of None \<Rightarrow> [] | Some x \<Rightarrow> x) = slotsOn rows d"
    by (simp add: groupsByDay_def obj_get_map slotsOn_absent)
  have step: "addToSchedule (groupsByDay rows) (ttl, d, t) = obj_set (groupsByDay rows) d ?X"
    by (simp add: addToSchedule_eq get slotsOn_snoc)
  show ?thesis
  proof (cases "d \<in> set ?days")
    case False
    then have "obj_set (groupsByDay rows) d ?X = groupsByDay rows @ [(d, ?X)]"
      unfolding groupsByDay_def by (rule obj_set_map_new)
    also have "\<dots> = groupsByDay (rows @ [(ttl, d, t)])"
      using False by (auto simp: groupsByDay_def firstSeen_snoc slotsOn_snoc)
    finally show ?thesis using step by simp
  next
    case True
    then have "obj_set (groupsByDay rows) d ?X =
        map (\<lambda>k'. (k', if k' = d then ?X else slotsOn rows k')) ?days"
      unfolding groupsByDay_def by (rule obj_set_map_old) simp
    also have "\<dots> = groupsByDay (rows @ [(ttl, d, t)])"
      using True by (auto simp: groupsByDay_def firstSeen_snoc slotsOn_snoc)
    finally show ?thesis using step by simp
  qed
qed

lemma buildSchedule_groupsByDay: "buildSchedule rows = groupsByDay rows"
proof (induction rows rule: rev_induct)
  case Nil
  show ?case by (simp add: buildSchedule_def groupsByDay_def firstSeen_def)
next
  case (snoc r rows)
  obtain ttl d t where r: "r = (ttl, d, t)" by (cases r) auto
  from snoc show ?case
    by (simp add: buildSchedule_def r addToSchedule_groupsByDay)
qed

lemma obj_get_distinct:
  "distinct (map fst kvs) \<Longrightarrow> (k, v) \<in> set kvs \<Longrightarrow> obj_get kvs k = Some v"
  by (induction kvs) (auto simp: rev_image_eqI)

lemma map_keys_lookup:
  assumes "distinct (map fst kvs)"
  shows "map (\<lambda>k. f k (case obj_get kvs k of None \<Rightarrow> d | Some v \<Rightarrow> v)) (obj_keys kvs)
       = map (\<lambda>(k, v). f k v) kvs"
proof -
  have "\<And>p. p \<in> set kvs \<Longrightarrow> obj_get kvs (fst p) = Some (snd p)"
    using assms by (auto intro: obj_get_distinct)
  then show ?thesis
    by (simp add: obj_keys_def case_prod_beta cong: map_cong)
qed

lemma choices_of_day:
  "filter isChoice (SectionHeader h # map (\<lambda>p. MultipleChoice (g p) (k p)) slots)
     = map (\<lambda>p. MultipleChoice (g p) (k p)) slots"
  by (induction slots) auto

lemma scheduleItems_groups:
  assumes "distinct (map fst sched)"
    and "\<forall>p\<in>set sched. distinct (map fst (snd p))"
  shows "filter isChoice (scheduleItems sched)
       = map (\<lambda>((d, t), ts). MultipleChoice (t @ '' '' @ d) ts) (groups sched)"
proof -
  have inner: "map (\<lambda>time. MultipleChoice (time @ '' '' @ d)
                  (case obj_get slots time of None \<Rightarrow> [] | Some ts \<Rightarrow> ts)) (obj_keys slots)
      = map (\<lambda>(t, ts). MultipleChoice (t @ '' '' @ d) ts) slots"
    if "distinct (map fst slots)" for d slots
    using map_keys_lookup [OF that, of "\<lambda>t ts. MultipleChoice (t @ '' '' @ d) ts" "[]"] .
  have "scheduleItems sched =
      concat (map (\<lambda>(d, slots). SectionHeader (''Sessions for '' @ d) #
                    map (\<lambda>time. MultipleChoice (time @ '' '' @ d)
                           (case obj_get slots time of None \<Rightarrow> [] | Some ts \<Rightarrow> ts)) (obj_keys slots)) sched)"
    unfolding scheduleItems_def
    using map_keys_lookup [OF assms(1), of "\<lambda>d slots. SectionHeader (''Sessions for '' @ d) #
                    map (\<lambda>time. MultipleChoice (time @ '' '' @ d)
                           (case obj_get slots time of None \<Rightarrow> [] | Some ts \<Rightarrow> ts)) (obj_keys slots)" "[]"]
    by simp
  also have "\<dots> = concat (map (\<lambda>(d, slots). SectionHeader (''Sessions for '' @ d) #
                    map (\<lambda>(t, ts). MultipleChoice (t @ '' '' @ d) ts) slots) sched)"
  proof -
    have "(case p of (d, slots) \<Rightarrow> SectionHeader (''Sessions for '' @ d) #
                    map (\<lambda>time. MultipleChoice (time @ '' '' @ d)
                           (case obj_get slots time of None \<Rightarrow> [] | Some ts \<Rightarrow> ts)) (obj_keys slots))
        = (case p of (d, slots) \<Rightarrow> SectionHeader (''Sessions for '' @ d) #
                    map (\<lambda>(t, ts). MultipleChoice (t @ '' '' @ d) ts) slots)"
      if "p \<in> set sched" for p
    proof (cases p)
      case (Pair d slots)
      with that assms(2) have "distinct (map fst slots)" by auto
      from inner [OF this, of d] Pair show ?thesis by (simp only: prod.case)
    qed
    then show ?thesis by (simp only: cong: map_cong)
  qed
  finally have "scheduleItems sched = concat (map (\<lambda>(d, slots). SectionHeader (''Sessions for '' @ d) #
                    map (\<lambda>(t, ts). MultipleChoice (t @ '' '' @ d) ts) slots) sched)" .
  then show ?thesis
    by (simp add: groups_def filter_concat comp_def case_prod_unfold choices_of_day map_concat)
qed

lemma groupsByDay_distinct:
  "distinct (map fst (groupsByDay rows)) \<and> (\<forall>p\<in>set (groupsByDay rows). distinct (map fst (snd p)))"
  by (auto simp: groupsByDay_def slotsOn_def comp_def distinct_timesOn)

text \<open>
  C6 (as amended). The schedule groups the rows by day, the days in the order in which they
  are first seen, and under each day by time, the times in the order in which they are first
  seen on that day; the titles of a group are in the order of the rows, and the
  multiple-choice questions of the form are the groups in that order. On the rows
  (T1, Mon, 10:00), (T2, Mon, 10:00), (T3, Mon, 11:00) the groups are
  (Mon, 10:00) with T1, T2 and then (Mon, 11:00) with T3.
\<close>

theorem schedule_groups_by_day_then_time:
  "buildSchedule rows = groupsByDay rows
   \<and> scheduleOf values = groupsByDay (map sessionKey (body values))
   \<and> filter isChoice (scheduleItems (scheduleOf values))
       = map (\<lambda>((d, t), ts). MultipleChoice (t @ '' '' @ d) ts)
           (groups (groupsByDay (map sessionKey (body values))))
   \<and> groups (buildSchedule [(''T1'', ''Mon'', ''10:00''), (''T2'', ''Mon'', ''10:00''),
                             (''T3'', ''Mon'', ''11:00'')])
       = [((''Mon'', ''10:00''), [''T1'', ''T2'']), ((''Mon'', ''11:00''), [''T3''])]"
proof -
  have a: "buildSchedule rows = groupsByDay rows"
    by (rule buildSchedule_groupsByDay)
  have b: "scheduleOf values = groupsByDay (map sessionKey (body values))"
    by (simp add: scheduleOf_def buildSchedule_groupsByDay)
  have c: "filter isChoice (scheduleItems (scheduleOf values))
       = map (\<lambda>((d, t), ts). MultipleChoice (t @ '' '' @ d) ts)
           (groups (groupsByDay (map sessionKey (body values))))"
    unfolding b using groupsByDay_distinct [of "map sessionKey (body values)"]
    by (intro scheduleItems_groups) simp_all
  have d: "groups (buildSchedule [(''T1'', ''Mon'', ''10:00''), (''T2'', ''Mon'', ''10:00''),
                             (''T3'', ''Mon'', ''11:00'')])
       = [((''Mon'', ''10:00''), [''T1'', ''T2'']), ((''Mon'', ''11:00''), [''T3''])]"
    by (simp add: buildSchedule_groupsByDay groups_def groupsByDay_def slotsOn_def
        timesOn_def titlesAt_def firstSeen_def)
  from a b c d show ?thesis by blast
qed

text \<open>
  C6 as stated fails: the keys (day, time) are not in the order in which they are first
  seen when the rows of a day are not adjacent. On (T1, Mon, 10:00), (T2, Tue, 10:00),
  (T3, Mon, 11:00) the key (Mon, 11:00) comes before (Tue, 10:00).
\<close>

theorem schedule_not_in_key_order:
  "groups (buildSchedule [(''T1'', ''Mon'', ''10:00''), (''T2'', ''Tue'', ''10:00''),
                           (''T3'', ''Mon'', ''11:00'')])
     = [((''Mon'', ''10:00''), [''T1'']), ((''Mon'', ''11:00''), [''T3'']),
        ((''Tue'', ''10:00''), [''T2''])]
   \<and> groupsByKey [(''T1'', ''Mon'', ''10:00''), (''T2'', ''Tue'', ''10:00''),
                   (''T3'', ''Mon'', ''11:00'')]
     = [((''Mon'', ''10:00''), [''T1'']), ((''Tue'', ''10:00''), [''T2'']),
        ((''Mon'', ''11:00''), [''T3''])]
   \<and> groups (buildSchedule [(''T1'', ''Mon'', ''10:00''), (''T2'', ''Tue'', ''10:00''),
                             (''T3'', ''Mon'', ''11:00'')])
     \<noteq> groupsByKey [(''T1'', ''Mon'', ''10:00''), (''T2'', ''Tue'', ''10:00''),
                     (''T3'', ''Mon'', ''11:00'')]"
  by (simp add: buildSchedule_def addToSchedule_def groups_def groupsByKey_def titlesAt_def
      firstSeen_def)

subsection \<open>Sending the mails\<close>

lemma sendStep_cases:
  "sendStep lc st i = st
   \<or> (\<exists>st'. sendStep lc st i = notify i lc (getValue (stSheet st) i 3) st' \<and> stSheet st' = stSheet st
            \<and> outbox st' = outbox st)"
  by (auto simp: sendStep_def Let_def)

lemma sendStep_notified: "looseEq (getValue (stSheet st) i lc) ''NOTIFIED'' \<Longrightarrow> sendStep lc st i = st"
  by (simp add: sendStep_def)

lemma sendStep_settled: "settled (stSheet st) lc i \<Longrightarrow> sendStep lc st i = st"
  by (auto simp: sendStep_def settled_def looseEq_def Let_def)

lemma sendStep_other_row:
  "k \<noteq> i \<Longrightarrow> cells (stSheet (sendStep lc st k)) i c = cells (stSheet st) i c"
  using sendStep_cases [of lc st k]
  by (auto simp: notify_def setValue_def)

lemma sendStep_other_mails:
  "k \<noteq> i \<Longrightarrow> filter (\<lambda>m. mRow m = i) (outbox (sendStep lc st k)) = filter (\<lambda>m. mRow m = i) (outbox st)"
  using sendStep_cases [of lc st k]
  by (auto simp: notify_def)

lemma sendStep_makes_settled: "settled (stSheet (sendStep lc st i)) lc i"
  by (auto simp: sendStep_def settled_def looseEq_def Let_def notify_def setValue_def getValue_def)

lemma sendStep_extent:
  "i \<le> lastRow (stSheet st) \<Longrightarrow> lc \<le> lastColumn (stSheet st) \<Longrightarrow>
   lastRow (stSheet (sendStep lc st i)) = lastRow (stSheet st)
   \<and> lastColumn (stSheet (sendStep lc st i)) = lastColumn (stSheet st)"
  using sendStep_cases [of lc st i]
  by (auto simp: notify_def setValue_def)

lemma sendLoop_notified_row:
  "looseEq (getValue (stSheet st) i lc) ''NOTIFIED'' \<Longrightarrow>
   (\<forall>c. cells (stSheet (foldl (sendStep lc) st ks)) i c = cells (stSheet st) i c)
   \<and> filter (\<lambda>m. mRow m = i) (outbox (foldl (sendStep lc) st ks)) = filter (\<lambda>m. mRow m = i) (outbox st)"
proof (induction ks arbitrary: st)
  case Nil
  show ?case by simp
next
  case (Cons k ks)
  show ?case
  proof (cases "k = i")
    case True
    with Cons.prems have "sendStep lc st k = st" by (simp add: sendStep_notified)
    with Cons.IH [OF Cons.prems] show ?thesis by simp
  next
    case False
    have same: "\<And>c. cells (stSheet (sendStep lc st k)) i c = cells (stSheet st) i c"
      using False by (rule sendStep_other_row)
    have "looseEq (getValue (stSheet (sendStep lc st k)) i lc) ''NOTIFIED''"
      using Cons.prems by (simp add: getValue_def same)
    from Cons.IH [OF this] show ?thesis
      by (simp add: same sendStep_other_mails [OF False])
  qed
qed

lemma sendLoop_settled_id:
  "\<forall>i\<in>set ks. settled (stSheet st) lc i \<Longrightarrow> foldl (sendStep lc) st ks = st"
  by (induction ks) (simp_all add: sendStep_settled)

lemma settled_other_row:
  "k \<noteq> i \<Longrightarrow> settled (stSheet (sendStep lc st k)) lc i = settled (stSheet st) lc i"
  by (simp add: settled_def getValue_def sendStep_other_row)

lemma sendLoop_makes_settled:
  "distinct ks \<Longrightarrow> \<forall>i\<in>set ks. settled (stSheet (foldl (sendStep lc) st ks)) lc i"
proof (induction ks rule: rev_induct)
  case Nil
  show ?case by simp
next
  case (snoc k ks)
  then have IH: "\<forall>i\<in>set ks. settled (stSheet (foldl (sendStep lc) st ks)) lc i"
    and new: "k \<notin> set ks" by simp_all
  show ?case
  proof
    fix i assume "i \<in> set (ks @ [k])"
    then consider "i = k" | "i \<in> set ks" "i \<noteq> k" using new by auto
    then show "settled (stSheet (foldl (sendStep lc) st (ks @ [k]))) lc i"
    proof cases
      case 1
      then show ?thesis by (simp add: sendStep_makes_settled)
    next
      case 2
      then show ?thesis using IH by (simp add: settled_other_row)
    qed
  qed
qed

lemma sendLoop_extent:
  "\<forall>i\<in>set ks. i \<le> lastRow (stSheet st) \<Longrightarrow> lc \<le> lastColumn (stSheet st) \<Longrightarrow>
   lastRow (stSheet (foldl (sendStep lc) st ks)) = lastRow (stSheet st)
   \<and> lastColumn (stSheet (foldl (sendStep lc) st ks)) = lastColumn (stSheet st)"
proof (induction ks arbitrary: st)
  case Nil
  show ?case by simp
next
  case (Cons k ks)
  have ext: "lastRow (stSheet (sendStep lc st k)) = lastRow (stSheet st)
     \<and> lastColumn (stSheet (sendStep lc st k)) = lastColumn (stSheet st)"
    using Cons.prems by (intro sendStep_extent) simp_all
  have "lastRow (stSheet (foldl (sendStep lc) (sendStep lc st k) ks)) = lastRow (stSheet (sendStep lc st k))
   \<and> lastColumn (stSheet (foldl (sendStep lc) (sendStep lc st k) ks)) = lastColumn (stSheet (sendStep lc st k))"
    using Cons.prems ext by (intro Cons.IH) simp_all
  with ext show ?case by simp
qed

lemma sendEmails_again:
  "outbox (sendEmails (stSheet (sendEmails sh))) = []"
proof -
  let ?lc = "lastColumn sh"
  let ?ks = "[2 ..< Suc (lastRow sh)]"
  let ?st0 = "\<lparr>stSheet = sh, outbox = [], subject = Undefined, message = Undefined\<rparr>"
  let ?sh' = "stSheet (foldl (sendStep ?lc) ?st0 ?ks)"
  let ?st1 = "\<lparr>stSheet = ?sh', outbox = [], subject = Undefined, message = Undefined\<rparr>"
  have run: "sendEmails sh = foldl (sendStep ?lc) ?st0 ?ks"
    by (simp only: sendEmails_def Let_def)
  have ext: "lastRow ?sh' = lastRow sh \<and> lastColumn ?sh' = lastColumn sh"
    using sendLoop_extent [of ?ks ?st0 ?lc] by (simp del: upt_Suc)
  have "\<forall>i\<in>set ?ks. settled ?sh' ?lc i"
    by (rule sendLoop_makes_settled) (simp del: upt_Suc)
  then have "foldl (sendStep ?lc) ?st1 ?ks = ?st1"
    by (intro sendLoop_settled_id) (simp del: upt_Suc)
  moreover have "sendEmails ?sh' = foldl (sendStep ?lc) ?st1 ?ks"
    using ext by (simp only: sendEmails_def Let_def)
  ultimately show ?thesis by (simp add: run del: upt_Suc)
qed

text \<open>
  C8. A row whose approval cell holds none of the three values is not passed by. The chain
  of tests in \<^verbatim>\<open>sendEmails\<close> has no last \<^verbatim>\<open>else\<close>, so the mail is sent all the same, with the
  subject and the message left over from the row before, and the row is marked as notified.
  In the timesheet above Bob, whose approval cell is empty, is told that his timesheet has
  been approved.
\<close>

theorem sendEmails_unrecognized_status_is_mailed:
  "getValue timesheet 3 APPROVAL_COLUMN = Str []
   \<and> getValue timesheet 3 (lastColumn timesheet) = Str ''NOT NOTIFIED''
   \<and> outbox (sendEmails timesheet) =
       [\<lparr>mRow = 2, mTo = Str ''ann@example.org'', mSubject = Str ''TimeSheet Approval'',
         mMessage = Str ''Your timesheet has been approved''\<rparr>,
        \<lparr>mRow = 3, mTo = Str ''bob@example.org'', mSubject = Str ''TimeSheet Approval'',
         mMessage = Str ''Your timesheet has been approved''\<rparr>]
   \<and> getValue (stSheet (sendEmails timesheet)) 3 (lastColumn timesheet) = Str ''NOTIFIED''"
  by code_simp

text \<open>
  C9. A row whose cell in the last column reads \<^verbatim>\<open>NOTIFIED\<close> gets no mail from
  \<^verbatim>\<open>sendEmails\<close> and none of its cells changes; and \<^verbatim>\<open>sendEmails\<close> run again on the sheet that a
  first run left sends no mail at all.
\<close>

theorem sendEmails_skips_notified:
  "(\<forall>i. getValue sh i (lastColumn sh) = Str ''NOTIFIED'' \<longrightarrow>
        filter (\<lambda>m. mRow m = i) (outbox (sendEmails sh)) = []
        \<and> (\<forall>c. getValue (stSheet (sendEmails sh)) i c = getValue sh i c))
   \<and> outbox (sendEmails (stSheet (sendEmails sh))) = []"
proof -
  have run: "sendEmails sh = foldl (sendStep (lastColumn sh))
      \<lparr>stSheet = sh, outbox = [], subject = Undefined, message = Undefined\<rparr> [2 ..< Suc (lastRow sh)]"
    by (simp only: sendEmails_def Let_def)
  have row: "filter (\<lambda>m. mRow m = i) (outbox (sendEmails sh)) = []
        \<and> (\<forall>c. getValue (stSheet (sendEmails sh)) i c = getValue sh i c)"
    if "getValue sh i (lastColumn sh) = Str ''NOTIFIED''" for i
  proof -
    from that have n: "looseEq (getValue (stSheet \<lparr>stSheet = sh, outbox = [], subject = Undefined,
        message = Undefined\<rparr>) i (lastColumn sh)) ''NOTIFIED''"
      by (simp add: looseEq_def)
    from sendLoop_notified_row [OF n, of "[2 ..< Suc (lastRow sh)]"]
    show ?thesis
      by (simp add: run getValue_def del: upt_Suc)
  qed
  have again: "outbox (sendEmails (stSheet (sendEmails sh))) = []"
    by (rule sendEmails_again)
  from row again show ?thesis by blast
qed

theorem sendEmails_skips_notified_witness:
  "getValue timesheet 4 (lastColumn timesheet) = Str ''NOTIFIED''
   \<and> filter (\<lambda>m. mRow m = 4) (outbox (sendEmails timesheet)) = []
   \<and> getValue (stSheet (sendEmails timesheet)) 4 3 = Str ''cy@example.org''
   \<and> length (outbox (sendEmails timesheet)) = 2
   \<and> outbox (sendEmails (stSheet (sendEmails timesheet))) = []"
proof -
  have h: "getValue timesheet 4 (lastColumn timesheet) = Str ''NOTIFIED''"
    by code_simp
  have v: "getValue timesheet 4 3 = Str ''cy@example.org''"
    by code_simp
  have l: "length (outbox (sendEmails timesheet)) = 2"
    by code_simp
  from sendEmails_skips_notified [of timesheet] h v l show ?thesis
    by simp
qed

subsection \<open>Calculating the pay\<close>

lemma isNum_conv: "isNum v \<longleftrightarrow> v = Num (numOf v)"
  by (cases v) (simp_all add: isNum_def numOf_def)

lemma js_add_fold_numeric:
  "\<forall>j\<in>set js. isNum (cell j) \<Longrightarrow>
   foldl (\<lambda>numHrs j. js_add numHrs (cell j)) (Num a) js = Num (a + sum_list (map (\<lambda>j. numOf (cell j)) js))"
proof (induction js arbitrary: a)
  case Nil
  show ?case by simp
next
  case (Cons j js)
  then have "cell j = Num (numOf (cell j))" by (simp add: isNum_conv)
  then obtain n where n: "cell j = Num n" "numOf (cell j) = n" by simp
  have "js_add (Num a) (Num n) = Num (a + n)"
    by (simp add: js_add_def)
  with Cons n show ?case by (simp add: add.assoc)
qed

lemma sumHours_numeric:
  assumes "numericRow sh i"
  shows "sumHours sh i = Num (\<Sum>j = HRS_START..HRS_END. numOf (getValue sh i j))"
proof -
  have "\<forall>j\<in>set [HRS_START ..< Suc HRS_END]. isNum (getValue sh i j)"
    using assms by (simp add: numericRow_def HRS_START_def HRS_END_def HRLY_PAY_COLUMN_def)
  then have "sumHours sh i = Num (0 + sum_list (map (\<lambda>j. numOf (getValue sh i j)) [HRS_START ..< Suc HRS_END]))"
    unfolding sumHours_def by (rule js_add_fold_numeric)
  also have "sum_list (map (\<lambda>j. numOf (getValue sh i j)) [HRS_START ..< Suc HRS_END])
      = (\<Sum>j = HRS_START..HRS_END. numOf (getValue sh i j))"
    by (simp add: interv_sum_list_conv_sum_set_nat atLeastLessThanSuc_atLeastAtMost del: upt_Suc)
  finally show ?thesis by simp
qed

lemma payStep_numeric:
  assumes "numericRow sh i"
  shows "payStep lc (Some sh) i = Some (setValue sh i (lc + 1) (Num (weeklyPayOf sh i)))"
proof -
  have "isNum (getValue sh i HRLY_PAY_COLUMN)"
    using assms by (simp add: numericRow_def HRS_START_def HRLY_PAY_COLUMN_def)
  then have r: "getValue sh i HRLY_PAY_COLUMN = Num (numOf (getValue sh i HRLY_PAY_COLUMN))"
    by (simp add: isNum_conv)
  have "js_mul (sumHours sh i) (getValue sh i HRLY_PAY_COLUMN) = Some (Num (weeklyPayOf sh i))"
    unfolding sumHours_numeric [OF assms]
    by (subst r) (simp add: js_mul_def toNumber_def weeklyPayOf_def)
  then show ?thesis
    by (simp add: payStep_def)
qed

lemma numericRow_cong: "(\<And>j. getValue s i j = getValue s' i j) \<Longrightarrow> numericRow s i = numericRow s' i"
  by (simp add: numericRow_def)

lemma weeklyPayOf_cong: "(\<And>j. getValue s i j = getValue s' i j) \<Longrightarrow> weeklyPayOf s i = weeklyPayOf s' i"
  by (simp add: weeklyPayOf_def)

lemma payLoop_numeric:
  "distinct ks \<Longrightarrow> \<forall>k\<in>set ks. numericRow s0 k \<Longrightarrow>
   \<exists>s'. foldl (payStep lc) (Some s0) ks = Some s'
     \<and> (\<forall>r c. getValue s' r c =
           (if c = lc + 1 \<and> r \<in> set ks then Num (weeklyPayOf s0 r) else getValue s0 r c))
     \<and> lastColumn s' = (if ks = [] then lastColumn s0 else max (lastColumn s0) (lc + 1))"
proof (induction ks rule: rev_induct)
  case Nil
  show ?case by simp
next
  case (snoc k ks)
  then obtain s' where run: "foldl (payStep lc) (Some s0) ks = Some s'"
    and cs: "\<And>r c. getValue s' r c =
           (if c = lc + 1 \<and> r \<in> set ks then Num (weeklyPayOf s0 r) else getValue s0 r c)"
    and lc: "lastColumn s' = (if ks = [] then lastColumn s0 else max (lastColumn s0) (lc + 1))"
    by auto
  from snoc.prems have new: "k \<notin> set ks" and num: "numericRow s0 k" by simp_all
  have same: "\<And>j. getValue s' k j = getValue s0 k j"
    using new by (simp add: cs)
  have "numericRow s' k"
    using num numericRow_cong [of s' k s0] same by simp
  then have "payStep lc (Some s') k = Some (setValue s' k (lc + 1) (Num (weeklyPayOf s' k)))"
    by (rule payStep_numeric)
  moreover have "weeklyPayOf s' k = weeklyPayOf s0 k"
    using weeklyPayOf_cong [of s' k s0] same by simp
  ultimately have step: "foldl (payStep lc) (Some s0) (ks @ [k]) = Some (setValue s' k (lc + 1) (Num (weeklyPayOf s0 k)))"
    using run by simp
  have "\<forall>r c. getValue (setValue s' k (lc + 1) (Num (weeklyPayOf s0 k))) r c =
           (if c = lc + 1 \<and> r \<in> set (ks @ [k]) then Num (weeklyPayOf s0 r) else getValue s0 r c)"
    using cs by (auto simp: getValue_def setValue_def)
  moreover have "lastColumn (setValue s' k (lc + 1) (Num (weeklyPayOf s0 k))) = max (lastColumn s0) (lc + 1)"
    using lc by (simp add: setValue_def)
  ultimately show ?case using step by simp
qed

lemma calculatePay_numeric:
  assumes wf: "emptyBeyond sh" and num: "\<forall>i\<in>{2..lastRow sh}. numericRow sh i"
  shows "\<exists>sh'. calculatePay sh = Some sh'
     \<and> (\<forall>r c. getValue sh' r c =
           (if c = lastColumn sh + 1 \<and> r = 1 then Str ''WEEKLY PAY''
            else if c = lastColumn sh + 1 \<and> 2 \<le> r \<and> r \<le> lastRow sh then Num (weeklyPayOf sh r)
            else getValue sh r c))
     \<and> lastColumn sh' = lastColumn sh + 1"
proof -
  let ?lc = "lastColumn sh"
  let ?sh1 = "insertColumnAfter sh ?lc"
  let ?sh2 = "setValue ?sh1 1 (?lc + 1) (Str ''WEEKLY PAY'')"
  let ?ks = "[2 ..< Suc (lastRow sh)]"
  have c1: "\<And>r c. getValue ?sh1 r c = getValue sh r c"
    using wf by (auto simp: emptyBeyond_def insertColumnAfter_def getValue_def)
  have c2: "\<And>r c. getValue ?sh2 r c = (if r = 1 \<and> c = ?lc + 1 then Str ''WEEKLY PAY'' else getValue sh r c)"
    using c1 by (auto simp: setValue_def getValue_def)
  have l2: "lastColumn ?sh2 = ?lc + 1"
    by (simp add: setValue_def insertColumnAfter_def)
  have rows: "\<forall>k\<in>set ?ks. numericRow ?sh2 k"
  proof
    fix k assume k: "k \<in> set ?ks"
    then have "\<And>j. getValue ?sh2 k j = getValue sh k j" using c2 by (simp del: upt_Suc)
    from numericRow_cong [of ?sh2 k sh, OF this] k num show "numericRow ?sh2 k"
      by (simp del: upt_Suc)
  qed
  have pay: "weeklyPayOf ?sh2 r = weeklyPayOf sh r" if "2 \<le> r" for r
  proof -
    from that have "\<And>j. getValue ?sh2 r j = getValue sh r j" using c2 by simp
    from weeklyPayOf_cong [of ?sh2 r sh, OF this] show ?thesis .
  qed
  have "distinct ?ks" by (simp del: upt_Suc)
  from payLoop_numeric [OF this rows, of ?lc]
  obtain s' where run: "foldl (payStep ?lc) (Some ?sh2) ?ks = Some s'"
    and cs: "\<And>r c. getValue s' r c =
           (if c = ?lc + 1 \<and> r \<in> set ?ks then Num (weeklyPayOf ?sh2 r) else getValue ?sh2 r c)"
    and lc: "lastColumn s' = (if ?ks = [] then lastColumn ?sh2 else max (lastColumn ?sh2) (?lc + 1))"
    by blast
  have "calculatePay sh = Some s'"
    using run by (simp only: calculatePay_def Let_def)
  moreover have "\<forall>r c. getValue s' r c =
           (if c = ?lc + 1 \<and> r = 1 then Str ''WEEKLY PAY''
            else if c = ?lc + 1 \<and> 2 \<le> r \<and> r \<le> lastRow sh then Num (weeklyPayOf sh r)
            else getValue sh r c)"
    using cs c2 pay by (auto simp del: upt_Suc)
  moreover have "lastColumn s' = ?lc + 1"
    using lc l2 by (simp del: upt_Suc)
  ultimately show ?thesis by blast
qed

text \<open>
  C10. \<^verbatim>\<open>calculatePay\<close> does not write the hours times the rate for every row. An empty hour
  cell reads as the empty string, and from then on \<^verbatim>\<open>+\<close> joins strings: for Bob, who has no
  hours on Monday and 8 hours on each of the four other days at a rate of 10, \<^verbatim>\<open>numHrs\<close> ends as
  the string 08888 and the pay written is 88880, where 32 hours times 10 are 320. The pay of
  Ann, whose cells are all numbers, is right. (When the hour and rate cells of every row are
  numbers, the new column holds the hours times the rate in every row, and no other cell
  changes: \<open>calculatePay_numeric\<close>.)
\<close>

theorem calculatePay_empty_hour_cell:
  "getValue timesheet 3 HRS_START = Str []
   \<and> sumHours timesheet 3 = Str ''08888''
   \<and> (case calculatePay timesheet of
         None \<Rightarrow> False
       | Some sh' \<Rightarrow> getValue sh' 1 13 = Str ''WEEKLY PAY'' \<and> getValue sh' 2 13 = Num 400
                    \<and> getValue sh' 3 13 = Num 88880)
   \<and> weeklyPayOf timesheet 2 = 400
   \<and> weeklyPayOf timesheet 3 = 320"
  by code_simp

subsection \<open>The open actions\<close>

text \<open>
  C7. When the form (the calendar) is to be opened and the properties hold no \<^verbatim>\<open>formId\<close>
  (\<^verbatim>\<open>calendarId\<close>), the action shows one alert and returns: the only effect on the host is
  that alert, so no dialog opening a URL is shown and nothing is tried again.
\<close>

theorem open_without_id_alerts:
  "(properties w ''formId'' = None \<longrightarrow>
      openForm w = Ok () (w\<lparr>ui := ui w @ [Alert ''No registration form has been set up yet.'']\<rparr>)
      \<and> filter isDialog (ui (worldOf (openForm w))) = filter isDialog (ui w))
   \<and> (properties w ''calendarId'' = None \<longrightarrow>
      openCalendar w = Ok () (w\<lparr>ui := ui w @ [Alert ''No calendar has been set up yet.'']\<rparr>)
      \<and> filter isDialog (ui (worldOf (openCalendar w))) = filter isDialog (ui w))"
  by (simp add: openForm_def openCalendar_def alert_def)

theorem open_without_id_alerts_witness:
  "properties freshWorld ''formId'' = None
   \<and> properties freshWorld ''calendarId'' = None
   \<and> ui (worldOf (openForm freshWorld)) = [Alert ''No registration form has been set up yet.'']
   \<and> ui (worldOf (openCalendar freshWorld)) = [Alert ''No calendar has been set up yet.'']"
  using open_without_id_alerts [of freshWorld]
  by (simp add: freshWorld_def)

end
